theory Spec2Isabelle
  imports Main "HOL-Library.Monad_Syntax" "HOL-Library.Sublist"
begin

section \<open>Network modules of botnet.py\<close>

text \<open>
  Channel counts, spatial sizes, strides and head counts are natural numbers. A module
  object is a value of the datatype \<open>layer\<close>: the framework's own layers
  (\<open>nn.Conv2D\<close>, \<open>nn.BatchNorm2D\<close>, \<open>nn.AvgPool2D\<close>, the activation object handed to
  the constructors) are kept as constructors with their constructor arguments, and the
  repository's own modules (\<open>MHSA\<close>, \<open>BoTBlock\<close>) are constructors carrying what their
  \<open>__init__\<close> stores. A raise is the value \<open>None\<close>.
\<close>

record RelPosEmb =
  height :: nat
  width :: nat
  dim_head :: nat

record MHSA =
  mhsa_dim :: nat
  heads :: nat
  dim_qk :: nat
  dim_v :: nat
  pos_emb :: RelPosEmb

datatype layer =
    Identity
  | Conv2D nat nat nat nat
  | BatchNorm2D nat
  | AvgPool2D nat
  | Activation nat
  | MHSA_layer MHSA
  | Sequential "layer list"
  | BoTBlock layer layer layer




text \<open>
  \<open>RelPosEmb.__init__\<close>: \<open>dim_head ** -0.5\<close> raises ZeroDivisionError for
  \<open>dim_head = 0\<close>, and \<open>paddle.randn\<close> is given the shapes
  \<open>[height * 2 - 1, dim_head]\<close> and \<open>[width * 2 - 1, dim_head]\<close>, whose first entry is
  \<open>-1\<close> (no valid shape) when the extent is \<open>0\<close>.
\<close>

definition RelPosEmb_init :: "nat \<Rightarrow> nat \<Rightarrow> nat \<Rightarrow> RelPosEmb option" where
  "RelPosEmb_init h w d =
     (if d = 0 then None
      else if h = 0 \<or> w = 0 then None
      else Some \<lparr>height = h, width = w, dim_head = d\<rparr>)"

text \<open>
  \<open>MHSA.__init__\<close>: \<open>dim_qk ** -0.5\<close> raises for \<open>dim_qk = 0\<close>; the flag
  \<open>rel_pos_emb\<close> is accepted and never read, the position embedding is always built.
\<close>

definition MHSA_init :: "nat \<Rightarrow> nat \<times> nat \<Rightarrow> nat \<Rightarrow> nat \<Rightarrow> nat \<Rightarrow> bool \<Rightarrow> MHSA option" where
  "MHSA_init dim fmap_size hds dqk dv rel_pos_emb =
     (if dqk = 0 then None
      else do {
        pe \<leftarrow> RelPosEmb_init (fst fmap_size) (snd fmap_size) dqk;
        Some \<lparr>mhsa_dim = dim, heads = hds, dim_qk = dqk, dim_v = dv, pos_emb = pe\<rparr>
      })"

text \<open>
  \<open>BoTBlock.__init__\<close>. \<open>dim_out // proj_factor\<close> raises ZeroDivisionError for
  \<open>proj_factor = 0\<close>.
\<close>

definition BoTBlock_init ::
  "nat \<Rightarrow> nat \<times> nat \<Rightarrow> nat \<Rightarrow> nat \<Rightarrow> nat \<Rightarrow> nat \<Rightarrow> nat \<Rightarrow> nat \<Rightarrow> bool \<Rightarrow> layer \<Rightarrow> layer option" where
  "BoTBlock_init dim fmap_size dim_out stride hds proj_factor dqk dv rel_pos_emb activation =
     (let shortcut =
            (if dim \<noteq> dim_out \<or> stride \<noteq> 1
             then Sequential [Conv2D dim dim_out 1 stride, BatchNorm2D dim_out, activation]
             else Identity)
      in if proj_factor = 0 then None
         else
           let bottleneck_dimension = dim_out div proj_factor;
               attn_dim_out = hds * dv
           in do {
             attn \<leftarrow> MHSA_init bottleneck_dimension fmap_size hds dqk dv rel_pos_emb;
             Some (BoTBlock shortcut
                     (Sequential
                        [Conv2D dim bottleneck_dimension 1 1,
                         BatchNorm2D bottleneck_dimension,
                         activation,
                         MHSA_layer attn,
                         (if stride = 2 then AvgPool2D 2 else Identity),
                         BatchNorm2D attn_dim_out,
                         activation,
                         Conv2D attn_dim_out dim_out 1 1,
                         BatchNorm2D dim_out])
                     activation)
           })"

text \<open>
  Running a module. The framework's layers and the attention layer compute on floating
  point tensors; what they do to a value of the tensor type \<open>'t\<close> is the parameter
  \<open>prim\<close>, and tensor addition is the parameter \<open>add\<close>. \<open>nn.Identity\<close> returns
  its argument, \<open>nn.Sequential\<close> feeds each layer's result to the next, and a block runs
  \<open>BoTBlock.forward\<close>.
\<close>

fun apply_layer :: "(layer \<Rightarrow> 't \<Rightarrow> 't option) \<Rightarrow> ('t \<Rightarrow> 't \<Rightarrow> 't option) \<Rightarrow> layer \<Rightarrow> 't \<Rightarrow> 't option"
  and apply_layers :: "(layer \<Rightarrow> 't \<Rightarrow> 't option) \<Rightarrow> ('t \<Rightarrow> 't \<Rightarrow> 't option) \<Rightarrow> layer list \<Rightarrow> 't \<Rightarrow> 't option"
where
  "apply_layer prim add Identity x = Some x"
| "apply_layer prim add (Sequential ls) x = apply_layers prim add ls x"
| "apply_layer prim add (BoTBlock s n a) x =
     do {
       shortcut \<leftarrow> apply_layer prim add s x;
       featuremap \<leftarrow> apply_layer prim add n x;
       featuremap' \<leftarrow> add featuremap shortcut;
       apply_layer prim add a featuremap'
     }"
| "apply_layer prim add (Conv2D ci co k s) x = prim (Conv2D ci co k s) x"
| "apply_layer prim add (BatchNorm2D c) x = prim (BatchNorm2D c) x"
| "apply_layer prim add (AvgPool2D k) x = prim (AvgPool2D k) x"
| "apply_layer prim add (Activation k) x = prim (Activation k) x"
| "apply_layer prim add (MHSA_layer m) x = prim (MHSA_layer m) x"
| "apply_layers prim add [] x = Some x"
| "apply_layers prim add (l # ls) x =
     do { y \<leftarrow> apply_layer prim add l x; apply_layers prim add ls y }"


subsection \<open>BoTStack\<close>

record BoTStack =
  stack_dim :: nat
  stack_fmap_size :: "nat \<times> nat"
  stack_net :: layer

text \<open>
  The loop of \<open>BoTStack.__init__\<close> over \<open>range(num_layers)\<close>, from index \<open>i\<close>
  on: \<open>dim\<close> is the constructor's \<open>dim\<close> for the first block and \<open>dim_out\<close>
  afterwards, only the first block gets the stride, and the later blocks of a stride-2
  stack get the halved feature map size.
\<close>

fun stack_layers ::
  "nat \<Rightarrow> nat \<Rightarrow> nat \<Rightarrow> nat \<times> nat \<Rightarrow> nat \<Rightarrow> nat \<Rightarrow> nat \<Rightarrow> nat \<Rightarrow> nat \<Rightarrow> nat \<Rightarrow> bool \<Rightarrow> layer \<Rightarrow> layer list option" where
  "stack_layers i 0 dim fmap_size dim_out hds proj_factor stride dqk dv rel_pos_emb activation = Some []"
| "stack_layers i (Suc k) dim fmap_size dim_out hds proj_factor stride dqk dv rel_pos_emb activation =
     (let is_first = (i = 0);
          dim' = (if is_first then dim else dim_out);
          fmap_divisor = (if stride = 2 \<and> \<not> is_first then 2 else 1 :: nat);
          layer_fmap_size = (fst fmap_size div fmap_divisor, snd fmap_size div fmap_divisor)
      in do {
        blk \<leftarrow> BoTBlock_init dim' layer_fmap_size dim_out (if is_first then stride else 1)
                 hds proj_factor dqk dv rel_pos_emb activation;
        rest \<leftarrow> stack_layers (Suc i) k dim' fmap_size dim_out hds proj_factor stride dqk dv
                 rel_pos_emb activation;
        Some (blk # rest)
      })"

definition BoTStack_init ::
  "nat \<Rightarrow> nat \<times> nat \<Rightarrow> nat \<Rightarrow> nat \<Rightarrow> nat \<Rightarrow> nat \<Rightarrow> nat \<Rightarrow> nat \<Rightarrow> nat \<Rightarrow> bool \<Rightarrow> layer \<Rightarrow> BoTStack option" where
  "BoTStack_init dim fmap_size dim_out hds proj_factor num_layers stride dqk dv rel_pos_emb activation =
     do {
       layers \<leftarrow> stack_layers 0 num_layers dim fmap_size dim_out hds proj_factor stride dqk dv
                   rel_pos_emb activation;
       Some \<lparr>stack_dim = dim, stack_fmap_size = fmap_size, stack_net = Sequential layers\<rparr>
     }"

text \<open>
  \<open>BoTStack.forward\<close>. The unpacking \<open>_, c, h, w = x.shape\<close> raises ValueError unless
  the input has four dimensions; the two \<open>assert\<close> statements follow in the source's
  order; the result of the block sequence (its value or its own failure) is returned as
  it is.
\<close>

datatype forward_error =
    ValueError_unpack
  | AssertionError_channels nat nat
  | AssertionError_fmap_size

fun is_assertion_failure :: "forward_error + 'r \<Rightarrow> bool" where
  "is_assertion_failure (Inl (AssertionError_channels c d)) = True"
| "is_assertion_failure (Inl AssertionError_fmap_size) = True"
| "is_assertion_failure r = False"

definition BoTStack_forward ::
  "('t \<Rightarrow> nat list) \<Rightarrow> (layer \<Rightarrow> 't \<Rightarrow> 't option) \<Rightarrow> ('t \<Rightarrow> 't \<Rightarrow> 't option) \<Rightarrow> BoTStack \<Rightarrow> 't
     \<Rightarrow> forward_error + 't option" where
  "BoTStack_forward shape_of prim add self x =
     (case shape_of x of
        [b, c, h, w] \<Rightarrow>
          if c \<noteq> stack_dim self then Inl (AssertionError_channels c (stack_dim self))
          else if \<not> (h = fst (stack_fmap_size self) \<and> w = snd (stack_fmap_size self))
          then Inl AssertionError_fmap_size
          else Inr (apply_layer prim add (stack_net self) x)
      | _ \<Rightarrow> Inl ValueError_unpack)"

section \<open>Configuration of config.py\<close>

text \<open>
  A configuration value is \<open>None\<close>, a bool, an int, a float (kept as the decimal literal
  \<open>m * 10 ^ e\<close>), a string, a list or a tuple. A \<open>CfgNode\<close> is a dictionary from keys to
  values and sub-nodes, in insertion order, with its immutability flag.
\<close>

datatype pyval =
    PNone
  | PBool bool
  | PInt int
  | PFloat int int
  | PStr string
  | PList "pyval list"
  | PTuple "pyval list"

datatype cfg_node = Leaf pyval | CN bool "(string \<times> cfg_node) list"

text \<open>A parsed YAML document: a scalar or sequence, or a mapping.\<close>

datatype ydoc = YVal pyval | YDict "(string \<times> ydoc) list"

datatype cfg_error =
    FileNotFoundError | KeyError | ValueError | TypeError | AttributeError | RecursionError

datatype py_type = NoneType | BoolT | IntT | FloatT | StrT | ListT | TupleT

fun type_of :: "pyval \<Rightarrow> py_type" where
  "type_of PNone = NoneType"
| "type_of (PBool b) = BoolT"
| "type_of (PInt i) = IntT"
| "type_of (PFloat m e) = FloatT"
| "type_of (PStr s) = StrT"
| "type_of (PList xs) = ListT"
| "type_of (PTuple xs) = TupleT"

text \<open>Python's truth value of an object, as \<open>if x:\<close> tests it.\<close>

fun truthy :: "pyval \<Rightarrow> bool" where
  "truthy PNone = False"
| "truthy (PBool b) = b"
| "truthy (PInt i) = (i \<noteq> 0)"
| "truthy (PFloat m e) = (m \<noteq> 0)"
| "truthy (PStr s) = (s \<noteq> [])"
| "truthy (PList xs) = (xs \<noteq> [])"
| "truthy (PTuple xs) = (xs \<noteq> [])"

subsection \<open>The CfgNode operations config.py calls\<close>

text \<open>
  The class \<open>CfgNode\<close> comes from the package yacs, which is not part of the
  repository; the operations below are what config.py relies on. \<open>freeze\<close> and
  \<open>defrost\<close> set the flag of a node and of every node below it. Attribute assignment
  on a frozen node raises AttributeError. \<open>merge_from_file\<close> writes the file's keys
  into the node by dictionary item assignment, which does not consult the flag: a key the
  node does not have raises KeyError, a sub-mapping is merged into the sub-node of the
  same key, and a value replaces a value of the same type (or \<open>None\<close> on either side,
  or a list for a tuple and a tuple for a list, converted to the type it replaces).
\<close>

fun set_immutable :: "bool \<Rightarrow> cfg_node \<Rightarrow> cfg_node" where
  "set_immutable b (Leaf v) = Leaf v"
| "set_immutable b (CN fr kvs) = CN b (map (\<lambda>(k, c). (k, set_immutable b c)) kvs)"

definition freeze :: "cfg_node \<Rightarrow> cfg_node" where
  "freeze c = set_immutable True c"

definition defrost :: "cfg_node \<Rightarrow> cfg_node" where
  "defrost c = set_immutable False c"

fun is_frozen :: "cfg_node \<Rightarrow> bool" where
  "is_frozen (CN fr kvs) = fr"
| "is_frozen (Leaf v) = False"

fun all_immutable :: "bool \<Rightarrow> cfg_node \<Rightarrow> bool" where
  "all_immutable b (Leaf v) = True"
| "all_immutable b (CN fr kvs) = (fr = b \<and> list_all (\<lambda>(k, c). all_immutable b c) kvs)"

fun setitem :: "string \<Rightarrow> 'v \<Rightarrow> (string \<times> 'v) list \<Rightarrow> (string \<times> 'v) list" where
  "setitem k v [] = [(k, v)]"
| "setitem k v ((k', v') # kvs) = (if k' = k then (k, v) # kvs else (k', v') # setitem k v kvs)"

text \<open>\<open>node.k1.k2 ... kn\<close>: a missing attribute raises AttributeError.\<close>

fun getattr :: "string list \<Rightarrow> cfg_node \<Rightarrow> cfg_error + cfg_node" where
  "getattr [] c = Inr c"
| "getattr (k # ks) (Leaf v) = Inl AttributeError"
| "getattr (k # ks) (CN fr kvs) =
     (case map_of kvs k of None \<Rightarrow> Inl AttributeError | Some c \<Rightarrow> getattr ks c)"

text \<open>\<open>node.k1.k2 ... kn = v\<close>: the last node on the path must not be frozen.\<close>

fun setattr :: "string list \<Rightarrow> pyval \<Rightarrow> cfg_node \<Rightarrow> cfg_error + cfg_node" where
  "setattr ks v (Leaf x) = Inl AttributeError"
| "setattr [] v (CN fr kvs) = Inl AttributeError"
| "setattr [k] v (CN fr kvs) =
     (if fr then Inl AttributeError else Inr (CN fr (setitem k (Leaf v) kvs)))"
| "setattr (k # k' # ks) v (CN fr kvs) =
     (case map_of kvs k of
        None \<Rightarrow> Inl AttributeError
      | Some c \<Rightarrow>
          (case setattr (k' # ks) v c of
             Inl e \<Rightarrow> Inl e
           | Inr c' \<Rightarrow> Inr (CN fr (setitem k c' kvs))))"

definition check_and_coerce_cfg_value_type :: "pyval \<Rightarrow> pyval \<Rightarrow> cfg_error + pyval" where
  "check_and_coerce_cfg_value_type replacement original =
     (if type_of replacement = type_of original then Inr replacement
      else if type_of replacement = NoneType \<or> type_of original = NoneType then Inr replacement
      else (case (replacement, original) of
              (PTuple xs, PList ys) \<Rightarrow> Inr (PList xs)
            | (PList xs, PTuple ys) \<Rightarrow> Inr (PTuple xs)
            | _ \<Rightarrow> Inl ValueError))"

fun merge_a_into_b :: "(string \<times> ydoc) list \<Rightarrow> cfg_node \<Rightarrow> cfg_error + cfg_node"
  and merge_value :: "ydoc \<Rightarrow> cfg_node \<Rightarrow> cfg_error + cfg_node"
where
  "merge_a_into_b [] b = Inr b"
| "merge_a_into_b ((k, v) # a) (Leaf x) = Inl TypeError"
| "merge_a_into_b ((k, v) # a) (CN fr kvs) =
     (case map_of kvs k of
        None \<Rightarrow> Inl KeyError
      | Some old \<Rightarrow>
          (case merge_value v old of
             Inl e \<Rightarrow> Inl e
           | Inr new \<Rightarrow> merge_a_into_b a (CN fr (setitem k new kvs))))"
| "merge_value (YVal v) (Leaf old) =
     (case check_and_coerce_cfg_value_type v old of Inl e \<Rightarrow> Inl e | Inr v' \<Rightarrow> Inr (Leaf v'))"
| "merge_value (YVal v) (CN fr kvs) = Inl ValueError"
| "merge_value (YDict d) (Leaf old) = Inl ValueError"
| "merge_value (YDict d) (CN fr kvs) = merge_a_into_b d (CN fr kvs)"

text \<open>
  The file system: a path that cannot be opened is \<open>None\<close>, any other holds the
  top-level mapping that \<open>yaml.load\<close> returns for the file.
\<close>

type_synonym files = "string \<Rightarrow> (string \<times> ydoc) list option"

definition merge_from_file :: "files \<Rightarrow> cfg_node \<Rightarrow> string \<Rightarrow> cfg_error + cfg_node" where
  "merge_from_file fs config cfg_file =
     (case fs cfg_file of
        None \<Rightarrow> Inl FileNotFoundError
      | Some doc \<Rightarrow> merge_a_into_b doc config)"

subsection \<open>Paths\<close>

text \<open>\<open>os.path.dirname\<close> and \<open>os.path.join\<close> of two components, on POSIX.\<close>

definition dirname :: "string \<Rightarrow> string" where
  "dirname p =
     (let head = rev (dropWhile (\<lambda>c. c \<noteq> CHR ''/'') (rev p))
      in if head \<noteq> [] \<and> \<not> list_all (\<lambda>c. c = CHR ''/'') head
         then rev (dropWhile (\<lambda>c. c = CHR ''/'') (rev head))
         else head)"

definition path_join :: "string \<Rightarrow> string \<Rightarrow> string" where
  "path_join a b =
     (if b \<noteq> [] \<and> hd b = CHR ''/'' then b
      else if a = [] \<or> last a = CHR ''/'' then a @ b
      else a @ ''/'' @ b)"

subsection \<open>_update_config_from_file\<close>

text \<open>
  \<open>yaml_cfg.setdefault('BASE', [''])\<close> followed by the \<open>for\<close> loop's iteration over
  the value: a list or tuple gives its elements, a string its characters, a mapping its
  keys, and anything else is not iterable.
\<close>

fun base_entries :: "(string \<times> ydoc) list \<Rightarrow> cfg_error + pyval list" where
  "base_entries yaml_cfg =
     (case map_of yaml_cfg ''BASE'' of
        None \<Rightarrow> Inr [PStr '''']
      | Some (YVal (PList xs)) \<Rightarrow> Inr xs
      | Some (YVal (PTuple xs)) \<Rightarrow> Inr xs
      | Some (YVal (PStr s)) \<Rightarrow> Inr (map (\<lambda>c. PStr [c]) s)
      | Some (YDict d) \<Rightarrow> Inr (map (\<lambda>(k, v). PStr k) d)
      | Some (YVal v) \<Rightarrow> Inl TypeError)"

text \<open>
  The function calls itself for every non-empty entry of \<open>BASE\<close>, so a chain of parents
  is as deep as Python's recursion limit allows: \<open>depth\<close> is the number of nested
  calls still allowed, and RecursionError is raised when none is left. \<open>print\<close> is
  left out. \<open>update_bases\<close> is the \<open>for\<close> loop.
\<close>

fun update_config_from_file :: "nat \<Rightarrow> files \<Rightarrow> cfg_node \<Rightarrow> string \<Rightarrow> cfg_error + cfg_node"
  and update_bases :: "nat \<Rightarrow> files \<Rightarrow> string \<Rightarrow> pyval list \<Rightarrow> cfg_node \<Rightarrow> cfg_error + cfg_node"
where
  "update_config_from_file 0 fs config cfg_file = Inl RecursionError"
| "update_config_from_file (Suc depth) fs config cfg_file =
     (let config = defrost config in
      case fs cfg_file of
        None \<Rightarrow> Inl FileNotFoundError
      | Some yaml_cfg \<Rightarrow>
          (case base_entries yaml_cfg of
             Inl e \<Rightarrow> Inl e
           | Inr bases \<Rightarrow>
               (case update_bases depth fs cfg_file bases config of
                  Inl e \<Rightarrow> Inl e
                | Inr config \<Rightarrow>
                    (case merge_from_file fs config cfg_file of
                       Inl e \<Rightarrow> Inl e
                     | Inr config \<Rightarrow> Inr (freeze config)))))"
| "update_bases depth fs cfg_file [] config = Inr config"
| "update_bases depth fs cfg_file (cfg # rest) config =
     (if truthy cfg then
        (case cfg of
           PStr s \<Rightarrow>
             (case update_config_from_file depth fs config (path_join (dirname cfg_file) s) of
                Inl e \<Rightarrow> Inl e
              | Inr config \<Rightarrow> update_bases depth fs cfg_file rest config)
         | _ \<Rightarrow> Inl TypeError)
      else update_bases depth fs cfg_file rest config)"


subsection \<open>update_config and get_config\<close>

text \<open>
  The command line arguments that \<open>update_config\<close> reads: an absent option is
  \<open>None\<close>, the two flags \<open>eval\<close> and \<open>amp\<close> are booleans.
\<close>

record args =
  cfg :: "string option"
  dataset :: "string option"
  batch_size :: "int option"
  image_size :: "int option"
  data_path :: "string option"
  ngpus :: "int option"
  eval :: bool
  pretrained :: "string option"
  resume :: "string option"
  last_epoch :: "int option"
  amp :: bool

definition arg_str :: "string option \<Rightarrow> pyval" where
  "arg_str a = (case a of None \<Rightarrow> PNone | Some s \<Rightarrow> PStr s)"

definition arg_int :: "int option \<Rightarrow> pyval" where
  "arg_int a = (case a of None \<Rightarrow> PNone | Some i \<Rightarrow> PInt i)"

text \<open>Statements in sequence, and a statement under an \<open>if\<close>.\<close>

fun run_steps :: "('s \<Rightarrow> 'e + 's) list \<Rightarrow> 's \<Rightarrow> 'e + 's" where
  "run_steps [] s = Inr s"
| "run_steps (f # fs) s = (case f s of Inl e \<Rightarrow> Inl e | Inr s' \<Rightarrow> run_steps fs s')"

definition if_then :: "bool \<Rightarrow> ('s \<Rightarrow> 'e + 's) \<Rightarrow> 's \<Rightarrow> 'e + 's" where
  "if_then b f s = (if b then f s else Inr s)"

text \<open>The first statement of \<open>update_config\<close>: \<open>if args.cfg: ...\<close>.\<close>

definition load_cfg_arg :: "nat \<Rightarrow> files \<Rightarrow> args \<Rightarrow> cfg_node \<Rightarrow> cfg_error + cfg_node" where
  "load_cfg_arg depth fs a config =
     (if truthy (arg_str (cfg a))
      then (case cfg a of
              None \<Rightarrow> Inr config
            | Some f \<Rightarrow> update_config_from_file depth fs config f)
      else Inr config)"

text \<open>
  The last statement before \<open>return\<close>: \<open>if args.amp: ...\<close>. \<open>config.EVAL is True\<close>
  holds for the boolean \<open>True\<close> only.
\<close>

definition set_amp :: "cfg_node \<Rightarrow> cfg_error + cfg_node" where
  "set_amp config =
     (case getattr [''EVAL''] config of
        Inl e \<Rightarrow> Inl e
      | Inr ev \<Rightarrow>
          if ev = Leaf (PBool True) then setattr [''AMP''] (PBool False) config
          else setattr [''AMP''] (PBool True) config)"

definition update_config :: "nat \<Rightarrow> files \<Rightarrow> cfg_node \<Rightarrow> args \<Rightarrow> cfg_error + cfg_node" where
  "update_config depth fs config a =
     run_steps
       [load_cfg_arg depth fs a,
        (\<lambda>c. Inr (defrost c)),
        if_then (truthy (arg_str (dataset a)))
          (setattr [''DATA'', ''DATASET''] (arg_str (dataset a))),
        if_then (truthy (arg_int (batch_size a)))
          (setattr [''DATA'', ''BATCH_SIZE''] (arg_int (batch_size a))),
        if_then (truthy (arg_int (image_size a)))
          (setattr [''DATA'', ''IMAGE_SIZE''] (arg_int (image_size a))),
        if_then (truthy (arg_str (data_path a)))
          (setattr [''DATA'', ''DATA_PATH''] (arg_str (data_path a))),
        if_then (truthy (arg_int (ngpus a)))
          (setattr [''NGPUS''] (arg_int (ngpus a))),
        if_then (eval a)
          (run_steps
             [setattr [''EVAL''] (PBool True),
              setattr [''DATA'', ''BATCH_SIZE_EVAL''] (arg_int (batch_size a))]),
        if_then (truthy (arg_str (pretrained a)))
          (setattr [''MODEL'', ''PRETRAINED''] (arg_str (pretrained a))),
        if_then (truthy (arg_str (resume a)))
          (setattr [''MODEL'', ''RESUME''] (arg_str (resume a))),
        if_then (truthy (arg_int (last_epoch a)))
          (setattr [''TRAIN'', ''LAST_EPOCH''] (arg_int (last_epoch a))),
        if_then (amp a) set_amp]
       config"

text \<open>The module's default tree \<open>_C\<close>; it is never frozen.\<close>

definition C_default :: cfg_node where
  "C_default =
     CN False
       [(''BASE'', Leaf (PList [PStr []])),
        (''DATA'', CN False
           [(''BATCH_SIZE'', Leaf (PInt 8)),
            (''BATCH_SIZE_EVAL'', Leaf (PInt 8)),
            (''DATA_PATH'', Leaf (PStr ''/dataset/imagenet/'')),
            (''DATASET'', Leaf (PStr ''imagenet2012'')),
            (''IMAGE_SIZE'', Leaf (PInt 224)),
            (''FMAP_SIZE'', Leaf (PTuple [PInt 14, PInt 14])),
            (''CROP_PCT'', Leaf (PFloat 9 (-1))),
            (''NUM_WORKERS'', Leaf (PInt 4))]),
        (''MODEL'', CN False
           [(''TYPE'', Leaf (PStr ''BoTNet'')),
            (''NAME'', Leaf (PStr ''BoTNet'')),
            (''RESUME'', Leaf PNone),
            (''PRETRAINED'', Leaf PNone),
            (''NUM_CLASSES'', Leaf (PInt 10)),
            (''TRANS'', CN False
               [(''EMBED_DIM'', Leaf (PInt 2048)),
                (''NUM_HEADS'', Leaf (PInt 4)),
                (''USE_ABS_POS_EMB'', Leaf (PBool False)),
                (''USE_REL_POS_BIAS'', Leaf (PBool True))])]),
        (''TRAIN'', CN False
           [(''LAST_EPOCH'', Leaf (PInt 0)),
            (''NUM_EPOCHS'', Leaf (PInt 300)),
            (''WARMUP_EPOCHS'', Leaf (PInt 20)),
            (''WEIGHT_DECAY'', Leaf (PFloat 5 (-2))),
            (''BASE_LR'', Leaf (PFloat 5 (-4))),
            (''WARMUP_START_LR'', Leaf (PFloat 5 (-7))),
            (''END_LR'', Leaf (PFloat 5 (-6))),
            (''GRAD_CLIP'', Leaf (PFloat 50 (-1))),
            (''ACCUM_ITER'', Leaf (PInt 1)),
            (''LR_SCHEDULER'', CN False
               [(''NAME'', Leaf (PStr ''warmupcosine'')),
                (''MILESTONES'', Leaf (PStr ''30, 60, 90'')),
                (''DECAY_EPOCHS'', Leaf (PInt 30)),
                (''DECAY_RATE'', Leaf (PFloat 1 (-1)))]),
            (''OPTIMIZER'', CN False
               [(''NAME'', Leaf (PStr ''AdamW'')),
                (''EPS'', Leaf (PFloat 1 (-8))),
                (''BETAS'', Leaf (PTuple [PFloat 9 (-1), PFloat 999 (-3)])),
                (''MOMENTUM'', Leaf (PFloat 9 (-1)))]),
            (''MIXUP_ALPHA'', Leaf (PFloat 8 (-1))),
            (''CUTMIX_ALPHA'', Leaf (PFloat 10 (-1))),
            (''CUTMIX_MINMAX'', Leaf PNone),
            (''MIXUP_PROB'', Leaf (PFloat 10 (-1))),
            (''MIXUP_SWITCH_PROB'', Leaf (PFloat 5 (-1))),
            (''MIXUP_MODE'', Leaf (PStr ''batch'')),
            (''SMOOTHING'', Leaf (PFloat 1 (-1))),
            (''COLOR_JITTER'', Leaf (PFloat 4 (-1))),
            (''AUTO_AUGMENT'', Leaf (PBool True)),
            (''RANDOM_ERASE_PROB'', Leaf (PFloat 25 (-2))),
            (''RANDOM_ERASE_MODE'', Leaf (PStr ''pixel'')),
            (''RANDOM_ERASE_COUNT'', Leaf (PInt 1)),
            (''RANDOM_ERASE_SPLIT'', Leaf (PBool False))]),
        (''AUG'', CN False
           [(''COLOR_JITTER'', Leaf (PFloat 4 (-1))),
            (''AUTO_AUGMENT'', Leaf (PStr ''rand-m9-mstd0.5-inc1'')),
            (''RE_PROB'', Leaf (PFloat 25 (-2))),
            (''RE_MODE'', Leaf (PStr ''pixel'')),
            (''RE_COUNT'', Leaf (PInt 1)),
            (''MIXUP'', Leaf (PFloat 8 (-1))),
            (''CUTMIX'', Leaf (PFloat 10 (-1))),
            (''CUTMIX_MINMAX'', Leaf PNone),
            (''MIXUP_PROB'', Leaf (PFloat 10 (-1))),
            (''MIXUP_SWITCH_PROB'', Leaf (PFloat 5 (-1))),
            (''MIXUP_MODE'', Leaf (PStr ''batch''))]),
        (''SAVE'', Leaf (PStr ''./output'')),
        (''TAG'', Leaf (PStr ''default'')),
        (''SAVE_FREQ'', Leaf (PInt 1)),
        (''REPORT_FREQ'', Leaf (PInt 50)),
        (''VALIDATE_FREQ'', Leaf (PInt 10)),
        (''SEED'', Leaf (PInt 0)),
        (''EVAL'', Leaf (PBool False)),
        (''AMP'', Leaf (PBool False)),
        (''LOCAL_RANK'', Leaf (PInt 0)),
        (''NGPUS'', Leaf (PInt (-1)))]"

text \<open>\<open>get_config\<close>: \<open>_C.clone()\<close> is a deep copy, the same value.\<close>

definition get_config :: "nat \<Rightarrow> files \<Rightarrow> string option \<Rightarrow> cfg_error + cfg_node" where
  "get_config depth fs cfg_file =
     (let config = C_default in
      if truthy (arg_str cfg_file)
      then (case cfg_file of
              None \<Rightarrow> Inr config
            | Some f \<Rightarrow> update_config_from_file depth fs config f)
      else Inr config)"

text \<open>A function applied to the configuration that an operation returns.\<close>

fun map_result :: "('a \<Rightarrow> 'b) \<Rightarrow> 'e + 'a \<Rightarrow> 'e + 'b" where
  "map_result f (Inl e) = Inl e"
| "map_result f (Inr c) = Inr (f c)"

text \<open>The value found at a path of the configuration that an operation returns.\<close>

definition value_at :: "string list \<Rightarrow> cfg_error + cfg_node \<Rightarrow> cfg_error + cfg_node" where
  "value_at path r = (case r of Inl e \<Rightarrow> Inl e | Inr c \<Rightarrow> getattr path c)"

text \<open>
  Example inputs: the command line with no option given, and a directory with a child
  file naming a parent in its \<open>BASE\<close> list.
\<close>

definition no_args :: args where
  "no_args =
     \<lparr>cfg = None, dataset = None, batch_size = None, image_size = None, data_path = None,
      ngpus = None, eval = False, pretrained = None, resume = None, last_epoch = None,
      amp = False\<rparr>"

definition example_files :: files where
  "example_files =
     (\<lambda>p. if p = ''configs/child.yaml'' then
             Some [(''BASE'', YVal (PList [PStr ''parent.yaml''])),
                   (''DATA'', YDict [(''BATCH_SIZE'', YVal (PInt 32))])]
           else if p = ''configs/parent.yaml'' then
             Some [(''DATA'', YDict [(''BATCH_SIZE'', YVal (PInt 16)),
                                     (''IMAGE_SIZE'', YVal (PInt 384))]),
                   (''AMP'', YVal (PBool True))]
           else None)"

definition then_setattr :: "string list \<Rightarrow> pyval \<Rightarrow> cfg_error + cfg_node \<Rightarrow> cfg_error + cfg_node" where
  "then_setattr path v r = (case r of Inl e \<Rightarrow> Inl e | Inr c \<Rightarrow> setattr path v c)"

text \<open>
  The order the specification gives for merging: the files named in \<open>BASE\<close>, each
  preceded by its own parents, then the file itself.
\<close>

fun merge_order :: "nat \<Rightarrow> files \<Rightarrow> string \<Rightarrow> cfg_error + string list"
  and bases_order :: "nat \<Rightarrow> files \<Rightarrow> string \<Rightarrow> pyval list \<Rightarrow> cfg_error + string list"
where
  "merge_order 0 fs cfg_file = Inl RecursionError"
| "merge_order (Suc depth) fs cfg_file =
     (case fs cfg_file of
        None \<Rightarrow> Inl FileNotFoundError
      | Some yaml_cfg \<Rightarrow>
          (case base_entries yaml_cfg of
             Inl e \<Rightarrow> Inl e
           | Inr bases \<Rightarrow>
               (case bases_order depth fs cfg_file bases of
                  Inl e \<Rightarrow> Inl e
                | Inr parents \<Rightarrow> Inr (parents @ [cfg_file]))))"
| "bases_order depth fs cfg_file [] = Inr []"
| "bases_order depth fs cfg_file (base # rest) =
     (if truthy base then
        (case base of
           PStr s \<Rightarrow>
             (case merge_order depth fs (path_join (dirname cfg_file) s) of
                Inl e \<Rightarrow> Inl e
              | Inr first \<Rightarrow>
                  (case bases_order depth fs cfg_file rest of
                     Inl e \<Rightarrow> Inl e
                   | Inr others \<Rightarrow> Inr (first @ others)))
         | _ \<Rightarrow> Inl TypeError)
      else bases_order depth fs cfg_file rest)"

fun merge_files :: "files \<Rightarrow> string list \<Rightarrow> cfg_node \<Rightarrow> cfg_error + cfg_node" where
  "merge_files fs [] config = Inr config"
| "merge_files fs (f # rest) config =
     (case merge_from_file fs config f of
        Inl e \<Rightarrow> Inl e
      | Inr config' \<Rightarrow> merge_files fs rest config')"

section \<open>Tensors\<close>

text \<open>
  A tensor is its shape and its elements in row-major order, as the framework stores a
  contiguous array; \<open>reshape\<close> keeps the elements and replaces the shape. The element
  type is a parameter: the index conversion only moves elements and adds zeros.
\<close>

record 'a tensor =
  shape :: "nat list"
  elems :: "'a list"

definition wf_tensor :: "'a tensor \<Rightarrow> bool" where
  "wf_tensor t = (length (elems t) = prod_list (shape t))"

text \<open>The offset of a multi-index in row-major order, and the multi-index of an offset.\<close>

fun ravel :: "nat list \<Rightarrow> nat list \<Rightarrow> nat" where
  "ravel (n # ns) (i # is) = i * prod_list ns + ravel ns is"
| "ravel ns is = 0"

fun unravel :: "nat list \<Rightarrow> nat \<Rightarrow> nat list" where
  "unravel [] p = []"
| "unravel (n # ns) p = (p div prod_list ns) # unravel ns (p mod prod_list ns)"

definition valid_index :: "nat list \<Rightarrow> nat list \<Rightarrow> bool" where
  "valid_index shp idx = list_all2 (\<lambda>i n. i < n) idx shp"

text \<open>\<open>t[i0, ..., ik]\<close> for an index inside the shape.\<close>

definition at :: "'a tensor \<Rightarrow> nat list \<Rightarrow> 'a" where
  "at t idx = elems t ! ravel (shape t) idx"

text \<open>The tensor of a given shape whose element at each index is given by a function.\<close>

definition tabulate :: "nat list \<Rightarrow> (nat list \<Rightarrow> 'a) \<Rightarrow> 'a tensor" where
  "tabulate shp f = \<lparr>shape = shp, elems = map (\<lambda>p. f (unravel shp p)) [0..<prod_list shp]\<rparr>"

text \<open>\<open>paddle.zeros(shp)\<close>.\<close>

definition zeros :: "nat list \<Rightarrow> 'a::zero tensor" where
  "zeros shp = tabulate shp (\<lambda>idx. 0)"

text \<open>
  \<open>paddle.concat([a, b], axis)\<close>: the two tensors have the same number of dimensions
  and agree on every dimension but \<open>axis\<close>. The framework raises when both tensors
  are empty, that is, when each has a dimension 0.
\<close>

definition concat_axis :: "nat \<Rightarrow> 'a tensor \<Rightarrow> 'a tensor \<Rightarrow> 'a tensor option" where
  "concat_axis axis a b =
     (if length (shape a) = length (shape b) \<and> axis < length (shape a)
         \<and> (shape a)[axis := 0] = (shape b)[axis := 0]
         \<and> \<not> (0 \<in> set (shape a) \<and> 0 \<in> set (shape b))
      then Some (tabulate ((shape a)[axis := shape a ! axis + shape b ! axis])
                  (\<lambda>idx. if idx ! axis < shape a ! axis then at a idx
                         else at b (idx[axis := idx ! axis - shape a ! axis])))
      else None)"

text \<open>\<open>paddle.reshape(t, shp)\<close> with every entry of \<open>shp\<close> given.\<close>

definition reshape :: "'a tensor \<Rightarrow> nat list \<Rightarrow> 'a tensor option" where
  "reshape t shp =
     (if prod_list shp = prod_list (shape t) then Some (t\<lparr>shape := shp\<rparr>) else None)"

text \<open>
  \<open>paddle.reshape(t, [-1] + rest)\<close>: the first dimension is what the element count
  leaves.
\<close>

definition reshape_infer :: "'a tensor \<Rightarrow> nat list \<Rightarrow> 'a tensor option" where
  "reshape_infer t rest =
     (let n = prod_list rest; total = prod_list (shape t)
      in if n = 0 \<or> total mod n \<noteq> 0 then None
         else Some (t\<lparr>shape := (total div n) # rest\<rparr>))"

subsection \<open>rel_to_abs\<close>

text \<open>\<open>t[:, :, :L, L - 1 :]\<close> on a four-dimensional tensor, for \<open>L \<ge> 1\<close>.\<close>

definition slice_rows_cols :: "nat \<Rightarrow> 'a tensor \<Rightarrow> 'a tensor option" where
  "slice_rows_cols L t =
     (case shape t of
        [B, Nh, R, C] \<Rightarrow>
          Some (tabulate [B, Nh, min L R, C - (L - 1)]
                  (\<lambda>idx. at t [idx ! 0, idx ! 1, idx ! 2, idx ! 3 + (L - 1)]))
      | _ \<Rightarrow> None)"

text \<open>
  \<open>rel_to_abs\<close>. The shape's last entry is not read. For \<open>L = 0\<close> the padding
  \<open>paddle.zeros([B, Nh, L - 1])\<close> has a negative dimension and raises; for an empty
  batch or no rows (\<open>B = 0\<close> or \<open>Nh = 0\<close>) the first \<open>paddle.concat\<close> raises.
\<close>

definition rel_to_abs :: "'a::zero tensor \<Rightarrow> 'a tensor option" where
  "rel_to_abs x =
     (case shape x of
        [B, Nh, L, M] \<Rightarrow>
          do {
            let col_pad = zeros [B, Nh, L, 1];
            x \<leftarrow> concat_axis 3 x col_pad;
            flat_x \<leftarrow> reshape x [B, Nh, L * 2 * L];
            flat_pad \<leftarrow> (if L = 0 then None else Some (zeros [B, Nh, L - 1]));
            flat_x \<leftarrow> concat_axis 2 flat_x flat_pad;
            final_x \<leftarrow> reshape flat_x [B, Nh, L + 1, 2 * L - 1];
            slice_rows_cols L final_x
          }
      | _ \<Rightarrow> None)"

text \<open>
  The steps as the specification words them, on one \<open>(B, N)\<close> row given as the list of
  its \<open>L\<close> rows of \<open>2L - 1\<close> entries.
\<close>

definition rel_to_abs_steps :: "nat \<Rightarrow> 'a::zero list list \<Rightarrow> 'a list list" where
  "rel_to_abs_steps L m =
     (let widened = map (\<lambda>row. row @ [0]) m;
          flat = concat widened;
          padded = flat @ replicate (L - 1) 0;
          rows = map (\<lambda>r. take (2 * L - 1) (drop (r * (2 * L - 1)) padded)) [0..<L + 1]
      in map (drop (L - 1)) (take L rows))"

text \<open>The \<open>(b, n)\<close> row of a four-dimensional tensor as a list of rows.\<close>

definition matrix_at :: "'a tensor \<Rightarrow> nat \<Rightarrow> nat \<Rightarrow> 'a list list" where
  "matrix_at t b n =
     map (\<lambda>i. map (\<lambda>k. at t [b, n, i, k]) [0..<shape t ! 3]) [0..<shape t ! 2]"

definition one_hot :: "nat list \<Rightarrow> nat list \<Rightarrow> 'a::zero_neq_one tensor" where
  "one_hot shp pos = tabulate shp (\<lambda>idx. if idx = pos then 1 else 0)"

text \<open>An example input with \<open>B = N = 1\<close> and \<open>L = 3\<close>.\<close>

definition x_example :: "int tensor" where
  "x_example =
     \<lparr>shape = [1, 1, 3, 5],
      elems = [10, 11, 12, 13, 14, 20, 21, 22, 23, 24, 30, 31, 32, 33, 34]\<rparr>"

subsection \<open>relative_logits_1d and RelPosEmb.forward\<close>

text \<open>
  \<open>expand_dim(t, dim, k)\<close>: \<open>unsqueeze\<close> inserts a dimension of size 1 at \<open>dim\<close>
  (at most the number of dimensions), and \<open>paddle.expand\<close> repeats the tensor \<open>k\<close>
  times along it.
\<close>

definition expand_dim :: "'a tensor \<Rightarrow> nat \<Rightarrow> nat \<Rightarrow> 'a tensor option" where
  "expand_dim t dim k =
     (if dim \<le> length (shape t)
      then Some (tabulate (take dim (shape t) @ [k] @ drop dim (shape t))
                  (\<lambda>idx. at t (take dim idx @ drop (Suc dim) idx)))
      else None)"

text \<open>
  \<open>einsum("b n h w d, m d -> b n h w m", q, rel_k)\<close>: the contraction over \<open>d\<close> is
  the sum of the products, in the order of \<open>d\<close>.
\<close>

definition einsum_bnhwd_md :: "'a::semiring_0 tensor \<Rightarrow> 'a tensor \<Rightarrow> 'a tensor option" where
  "einsum_bnhwd_md q rel_k =
     (case (shape q, shape rel_k) of
        ([B, Nh, H, W, D], [M, D']) \<Rightarrow>
          if D = D'
          then Some (tabulate [B, Nh, H, W, M]
                      (\<lambda>idx. sum_list
                         (map (\<lambda>d. at q [idx ! 0, idx ! 1, idx ! 2, idx ! 3, d] * at rel_k [idx ! 4, d])
                            [0..<D])))
          else None
      | _ \<Rightarrow> None)"

definition relative_logits_1d :: "'a::semiring_0 tensor \<Rightarrow> 'a tensor \<Rightarrow> 'a tensor option" where
  "relative_logits_1d q rel_k =
     (case shape q of
        [B, Nh, H, W, D] \<Rightarrow>
          do {
            rel_logits \<leftarrow> einsum_bnhwd_md q rel_k;
            rel_logits \<leftarrow> reshape_infer rel_logits [Nh * H, W, 2 * W - 1];
            rel_logits \<leftarrow> rel_to_abs rel_logits;
            rel_logits \<leftarrow> reshape_infer rel_logits [Nh, H, W, W];
            expand_dim rel_logits 3 H
          }
      | _ \<Rightarrow> None)"

text \<open>
  The four \<open>rearrange\<close> patterns of \<open>RelPosEmb.forward\<close>. A group \<open>(x y)\<close> on the
  left is split with the sizes given, a group on the right is the row-major merge of its
  axes.
\<close>

definition rearrange_split_xy :: "nat \<Rightarrow> nat \<Rightarrow> 'a tensor \<Rightarrow> 'a tensor option" where
  \<comment> \<open>\<open>"b h (x y) d -> b h x y d"\<close>\<close>
  "rearrange_split_xy x y t =
     (case shape t of
        [b, h, n, d] \<Rightarrow> if n = x * y then Some (t\<lparr>shape := [b, h, x, y, d]\<rparr>) else None
      | _ \<Rightarrow> None)"

definition rearrange_swap_xy :: "'a tensor \<Rightarrow> 'a tensor option" where
  \<comment> \<open>\<open>"b h x y d -> b h y x d"\<close>\<close>
  "rearrange_swap_xy t =
     (case shape t of
        [b, h, x, y, d] \<Rightarrow>
          Some (tabulate [b, h, y, x, d]
                  (\<lambda>idx. at t [idx ! 0, idx ! 1, idx ! 3, idx ! 2, idx ! 4]))
      | _ \<Rightarrow> None)"

definition rearrange_merge_xy_ij :: "'a tensor \<Rightarrow> 'a tensor option" where
  \<comment> \<open>\<open>"b h x i y j -> b h (x y) (i j)"\<close>\<close>
  "rearrange_merge_xy_ij t =
     (case shape t of
        [b, h, x, i, y, j] \<Rightarrow>
          Some (tabulate [b, h, x * y, i * j]
                  (\<lambda>idx. at t [idx ! 0, idx ! 1, idx ! 2 div y, idx ! 3 div j,
                                idx ! 2 mod y, idx ! 3 mod j]))
      | _ \<Rightarrow> None)"

definition rearrange_merge_yx_ji :: "'a tensor \<Rightarrow> 'a tensor option" where
  \<comment> \<open>\<open>"b h x i y j -> b h (y x) (j i)"\<close>\<close>
  "rearrange_merge_yx_ji t =
     (case shape t of
        [b, h, x, i, y, j] \<Rightarrow>
          Some (tabulate [b, h, y * x, j * i]
                  (\<lambda>idx. at t [idx ! 0, idx ! 1, idx ! 2 mod x, idx ! 3 mod i,
                                idx ! 2 div x, idx ! 3 div i]))
      | _ \<Rightarrow> None)"

text \<open>
  Element-wise \<open>a + b\<close> of two tensors of the same shape (the only case
  \<open>RelPosEmb.forward\<close> meets; broadcasting of unlike shapes is not modelled and is
  \<open>None\<close>).
\<close>

definition tensor_add :: "'a::plus tensor \<Rightarrow> 'a tensor \<Rightarrow> 'a tensor option" where
  "tensor_add a b =
     (if shape a = shape b then Some (tabulate (shape a) (\<lambda>idx. at a idx + at b idx))
      else None)"

text \<open>
  \<open>RelPosEmb.forward\<close>, with the two learned tables \<open>self.rel_height\<close> and
  \<open>self.rel_width\<close> as arguments. The two tensors it adds are computed by the next two
  functions.
\<close>

definition rel_logits_w_of :: "RelPosEmb \<Rightarrow> 'a::semiring_0 tensor \<Rightarrow> 'a tensor \<Rightarrow> 'a tensor option" where
  "rel_logits_w_of self rel_width q =
     do {
       q \<leftarrow> rearrange_split_xy (height self) (width self) q;
       rel_logits_w \<leftarrow> relative_logits_1d q rel_width;
       rearrange_merge_xy_ij rel_logits_w
     }"

definition rel_logits_h_of :: "RelPosEmb \<Rightarrow> 'a::semiring_0 tensor \<Rightarrow> 'a tensor \<Rightarrow> 'a tensor option" where
  "rel_logits_h_of self rel_height q =
     do {
       q \<leftarrow> rearrange_split_xy (height self) (width self) q;
       q \<leftarrow> rearrange_swap_xy q;
       rel_logits_h \<leftarrow> relative_logits_1d q rel_height;
       rearrange_merge_yx_ji rel_logits_h
     }"

definition RelPosEmb_forward ::
  "RelPosEmb \<Rightarrow> 'a::semiring_0 tensor \<Rightarrow> 'a tensor \<Rightarrow> 'a tensor \<Rightarrow> 'a tensor option" where
  "RelPosEmb_forward self rel_height rel_width q =
     do {
       rel_logits_w \<leftarrow> rel_logits_w_of self rel_width q;
       rel_logits_h \<leftarrow> rel_logits_h_of self rel_height q;
       tensor_add rel_logits_w rel_logits_h
     }"

text \<open>
  Swapping the two spatial coordinates: of the positions \<open>(x y)\<close> of a query tensor
  \<open>(b, h, (x y), d)\<close> on an \<open>s\<close> by \<open>s\<close> map, and of both the query and the key
  positions of a logit tensor \<open>(b, h, (x y), (i j))\<close>.
\<close>

definition swap_xy :: "nat \<Rightarrow> nat \<Rightarrow> nat" where
  "swap_xy s p = (p mod s) * s + p div s"

definition transpose_query :: "nat \<Rightarrow> 'a tensor \<Rightarrow> 'a tensor" where
  "transpose_query s q =
     tabulate (shape q) (\<lambda>idx. at q [idx ! 0, idx ! 1, swap_xy s (idx ! 2), idx ! 3])"

definition transpose_logits :: "nat \<Rightarrow> 'a tensor \<Rightarrow> 'a tensor" where
  "transpose_logits s t =
     tabulate (shape t)
       (\<lambda>idx. at t [idx ! 0, idx ! 1, swap_xy s (idx ! 2), swap_xy s (idx ! 3)])"

text \<open>Example inputs on a 2 by 2 map with one head and one channel.\<close>

definition q_example :: "int tensor" where
  "q_example = \<lparr>shape = [1, 1, 4, 1], elems = [1, 2, 3, 4]\<rparr>"

definition rel_example :: "int tensor" where
  "rel_example = \<lparr>shape = [3, 1], elems = [1, 10, 100]\<rparr>"

definition pos_example :: RelPosEmb where
  "pos_example = \<lparr>height = 2, width = 2, dim_head = 1\<rparr>"

subsection \<open>MHSA.forward\<close>

text \<open>
  The values that an \<open>MHSA\<close> object holds besides the numbers of its constructor: the
  float \<open>self.scale\<close> (\<open>dim_qk ** -0.5\<close>), the weights of the two bias-free 1x1
  convolutions \<open>to_qk\<close> and \<open>to_v\<close>, and the two tables of its \<open>pos_emb\<close>. The
  element type stands for the framework's floats; it is a field, and the float
  exponential that \<open>nn.Softmax\<close> uses is the parameter \<open>expf\<close> of the forward pass.
\<close>

record 'a MHSA_weights =
  mhsa_scale :: 'a
  to_qk_weight :: "'a tensor"
  to_v_weight :: "'a tensor"
  pos_rel_height :: "'a tensor"
  pos_rel_width :: "'a tensor"

text \<open>
  The shapes that \<open>MHSA.__init__\<close> and \<open>RelPosEmb.__init__\<close> give the weights:
  \<open>nn.Conv2D(dim, out, 1)\<close> has a weight of shape \<open>(out, dim, 1, 1)\<close>, and the tables
  are \<open>(height * 2 - 1, dim_head)\<close> and \<open>(width * 2 - 1, dim_head)\<close>.
\<close>

definition MHSA_weight_shapes :: "MHSA \<Rightarrow> 'a MHSA_weights \<Rightarrow> bool" where
  "MHSA_weight_shapes self ws =
     (shape (to_qk_weight ws) = [heads self * dim_qk self * 2, mhsa_dim self, 1, 1]
      \<and> shape (to_v_weight ws) = [heads self * dim_v self, mhsa_dim self, 1, 1]
      \<and> shape (pos_rel_height ws) = [height (pos_emb self) * 2 - 1, dim_head (pos_emb self)]
      \<and> shape (pos_rel_width ws) = [width (pos_emb self) * 2 - 1, dim_head (pos_emb self)])"

text \<open>
  A bias-free convolution with a 1x1 kernel, stride 1 and no padding: every output
  channel is a weighted sum of the input channels at the same position. It raises when
  the input's channel count is not the one the layer was built for.
\<close>

definition conv2d_1x1 :: "'a::semiring_0 tensor \<Rightarrow> 'a tensor \<Rightarrow> 'a tensor option" where
  "conv2d_1x1 weight x =
     (case (shape weight, shape x) of
        ([Cout, Cin, kh, kw], [B, C, H, W]) \<Rightarrow>
          if kh = 1 \<and> kw = 1 \<and> C = Cin
          then Some (tabulate [B, Cout, H, W]
                      (\<lambda>idx. sum_list
                         (map (\<lambda>c. at x [idx ! 0, c, idx ! 2, idx ! 3] * at weight [idx ! 1, c, 0, 0])
                            [0..<Cin])))
          else None
      | _ \<Rightarrow> None)"

text \<open>
  \<open>t.chunk(2, axis=1)\<close> of a 4-d tensor: the two halves of the channels; it raises when
  the channel count is odd.
\<close>

definition chunk2_axis1 :: "'a tensor \<Rightarrow> ('a tensor \<times> 'a tensor) option" where
  "chunk2_axis1 t =
     (case shape t of
        [B, C, H, W] \<Rightarrow>
          if C mod 2 = 0
          then Some (tabulate [B, C div 2, H, W] (\<lambda>idx. at t idx),
                     tabulate [B, C div 2, H, W]
                       (\<lambda>idx. at t [idx ! 0, idx ! 1 + C div 2, idx ! 2, idx ! 3]))
          else None
      | _ \<Rightarrow> None)"

text \<open>
  \<open>rearrange(x, "B (h d) H W -> B h (H W) d", h=heads)\<close>: the channel axis is split
  into \<open>h\<close> groups of \<open>d\<close>, which needs \<open>h\<close> to divide it (and \<open>h\<close> not zero), and
  the two spatial axes are merged row-major.
\<close>

definition rearrange_heads :: "nat \<Rightarrow> 'a tensor \<Rightarrow> 'a tensor option" where
  "rearrange_heads h t =
     (case shape t of
        [B, C, H, W] \<Rightarrow>
          if h = 0 \<or> C mod h \<noteq> 0 then None
          else Some (tabulate [B, h, H * W, C div h]
                      (\<lambda>idx. at t [idx ! 0, idx ! 1 * (C div h) + idx ! 3,
                                    idx ! 2 div W, idx ! 2 mod W]))
      | _ \<Rightarrow> None)"

text \<open>\<open>q *= self.scale\<close>.\<close>

definition tensor_scale :: "'a::times \<Rightarrow> 'a tensor \<Rightarrow> 'a tensor" where
  "tensor_scale s t = t\<lparr>elems := map (\<lambda>v. v * s) (elems t)\<rparr>"

text \<open>\<open>einsum("b h x d, b h y d -> b h x y", q, k)\<close>.\<close>

definition einsum_bhxd_bhyd :: "'a::semiring_0 tensor \<Rightarrow> 'a tensor \<Rightarrow> 'a tensor option" where
  "einsum_bhxd_bhyd q k =
     (case (shape q, shape k) of
        ([B, h, X, D], [B', h', Y, D']) \<Rightarrow>
          if B = B' \<and> h = h' \<and> D = D'
          then Some (tabulate [B, h, X, Y]
                      (\<lambda>idx. sum_list
                         (map (\<lambda>d. at q [idx ! 0, idx ! 1, idx ! 2, d] * at k [idx ! 0, idx ! 1, idx ! 3, d])
                            [0..<D])))
          else None
      | _ \<Rightarrow> None)"

text \<open>\<open>einsum("b h x y, b h y d -> b h x d", weights, v)\<close>.\<close>

definition einsum_bhxy_bhyd :: "'a::semiring_0 tensor \<Rightarrow> 'a tensor \<Rightarrow> 'a tensor option" where
  "einsum_bhxy_bhyd w v =
     (case (shape w, shape v) of
        ([B, h, X, Y], [B', h', Y', D]) \<Rightarrow>
          if B = B' \<and> h = h' \<and> Y = Y'
          then Some (tabulate [B, h, X, D]
                      (\<lambda>idx. sum_list
                         (map (\<lambda>y. at w [idx ! 0, idx ! 1, idx ! 2, y] * at v [idx ! 0, idx ! 1, y, idx ! 3])
                            [0..<Y])))
          else None
      | _ \<Rightarrow> None)"

text \<open>
  \<open>nn.Softmax(axis=-1)\<close>: every row along the last axis is replaced by its
  exponentials divided by their sum.
\<close>

definition softmax_row :: "('a \<Rightarrow> 'a) \<Rightarrow> 'a::field list \<Rightarrow> 'a list" where
  "softmax_row expf xs = map (\<lambda>v. expf v / sum_list (map expf xs)) xs"

definition softmax_last :: "('a \<Rightarrow> 'a) \<Rightarrow> 'a::field tensor \<Rightarrow> 'a tensor" where
  "softmax_last expf t =
     tabulate (shape t)
       (\<lambda>idx. softmax_row expf (map (\<lambda>j. at t (butlast idx @ [j])) [0..<last (shape t)])
               ! last idx)"

text \<open>
  \<open>rearrange(x, "B h (H W) d -> B (h d) H W", H=H)\<close>: the third axis is split into
  \<open>H\<close> rows, which needs \<open>H\<close> to divide it (and \<open>H\<close> not zero), and the head and
  channel axes are merged row-major.
\<close>

definition rearrange_unheads :: "nat \<Rightarrow> 'a tensor \<Rightarrow> 'a tensor option" where
  "rearrange_unheads H t =
     (case shape t of
        [B, h, N, d] \<Rightarrow>
          if H = 0 \<or> N mod H \<noteq> 0 then None
          else Some (tabulate [B, h * d, H, N div H]
                      (\<lambda>idx. at t [idx ! 0, idx ! 1 div d, idx ! 2 * (N div H) + idx ! 3,
                                    idx ! 1 mod d]))
      | _ \<Rightarrow> None)"

text \<open>\<open>MHSA.forward\<close>. Unpacking \<open>featuremap.shape\<close> raises unless it has 4 entries.\<close>

definition MHSA_forward ::
  "('a \<Rightarrow> 'a) \<Rightarrow> MHSA \<Rightarrow> 'a::field MHSA_weights \<Rightarrow> 'a tensor \<Rightarrow> 'a tensor option" where
  "MHSA_forward expf self ws featuremap =
     (case shape featuremap of
        [B, C, H, W] \<Rightarrow>
          do {
            qk \<leftarrow> conv2d_1x1 (to_qk_weight ws) featuremap;
            (q, k) \<leftarrow> chunk2_axis1 qk;
            v \<leftarrow> conv2d_1x1 (to_v_weight ws) featuremap;
            q \<leftarrow> rearrange_heads (heads self) q;
            k \<leftarrow> rearrange_heads (heads self) k;
            v \<leftarrow> rearrange_heads (heads self) v;
            let q = tensor_scale (mhsa_scale ws) q;
            logits \<leftarrow> einsum_bhxd_bhyd q k;
            pos \<leftarrow> RelPosEmb_forward (pos_emb self) (pos_rel_height ws) (pos_rel_width ws) q;
            logits \<leftarrow> tensor_add logits pos;
            let weights = softmax_last expf logits;
            attn_out \<leftarrow> einsum_bhxy_bhyd weights v;
            rearrange_unheads H attn_out
          }
      | _ \<Rightarrow> None)"

text \<open>
  Example: an attention layer over 2 channels on a 2 by 2 map with one head, all weights
  1, and the \<open>h\<close> by \<open>w\<close> feature map of \<open>c\<close> channels with all entries 1.
\<close>

definition mhsa_example :: MHSA where
  "mhsa_example =
     \<lparr>mhsa_dim = 2, heads = 1, dim_qk = 1, dim_v = 3,
      pos_emb = \<lparr>height = 2, width = 2, dim_head = 1\<rparr>\<rparr>"

definition weights_example :: "'a::field MHSA_weights" where
  "weights_example =
     \<lparr>mhsa_scale = 1,
      to_qk_weight = tabulate [2, 2, 1, 1] (\<lambda>idx. 1),
      to_v_weight = tabulate [3, 2, 1, 1] (\<lambda>idx. 1),
      pos_rel_height = tabulate [3, 1] (\<lambda>idx. 1),
      pos_rel_width = tabulate [3, 1] (\<lambda>idx. 1)\<rparr>"

definition featuremap_example :: "nat \<Rightarrow> nat \<Rightarrow> nat \<Rightarrow> 'a::field tensor" where
  "featuremap_example c h w = tabulate [1, c, h, w] (\<lambda>idx. 1)"

section \<open>The residual block\<close>



section \<open>The stack's entry check\<close>

text \<open>
  C6. For a four-dimensional input of shape \<open>(b, c, h, w)\<close>, \<open>BoTStack.forward\<close> fails
  one of its assertions exactly when \<open>c\<close> differs from the stack's \<open>dim\<close> or \<open>(h, w)\<close>
  differs from the stack's \<open>fmap_size\<close>; otherwise no assertion fires and the result is
  that of the block sequence on the input.
\<close>

theorem BoTStack_forward_assertion_iff:
  assumes "shape_of x = [b, c, h, w]"
  shows "(is_assertion_failure (BoTStack_forward shape_of prim add self x)
            \<longleftrightarrow> c \<noteq> stack_dim self \<or> (h, w) \<noteq> stack_fmap_size self)
       \<and> (c = stack_dim self \<and> (h, w) = stack_fmap_size self \<longrightarrow>
            BoTStack_forward shape_of prim add self x
              = Inr (apply_layer prim add (stack_net self) x))"
  using assms by (cases "stack_fmap_size self") (auto simp: BoTStack_forward_def)

theorem BoTStack_forward_assertion_iff_witness:
  "is_assertion_failure
     (BoTStack_forward (\<lambda>x. x) (\<lambda>l t. Some t) (\<lambda>a b. Some a)
        \<lparr>stack_dim = 1024, stack_fmap_size = (14, 14), stack_net = Identity\<rparr> [1, 512, 14, 14])
   \<and> BoTStack_forward (\<lambda>x. x) (\<lambda>l t. Some t) (\<lambda>a b. Some a)
        \<lparr>stack_dim = 1024, stack_fmap_size = (14, 14), stack_net = Identity\<rparr> [1, 1024, 14, 14]
       = Inr (Some [1, 1024, 14, 14])"
  using BoTStack_forward_assertion_iff
          [of "\<lambda>x. x" "[1, 512, 14, 14]" 1 512 14 14 "\<lambda>l t. Some t" "\<lambda>a b. Some a"
              "\<lparr>stack_dim = 1024, stack_fmap_size = (14, 14), stack_net = Identity\<rparr>"]
        BoTStack_forward_assertion_iff
          [of "\<lambda>x. x" "[1, 1024, 14, 14]" 1 1024 14 14 "\<lambda>l t. Some t" "\<lambda>a b. Some a"
              "\<lparr>stack_dim = 1024, stack_fmap_size = (14, 14), stack_net = Identity\<rparr>"]
  by simp

section \<open>Facts about the configuration operations\<close>

lemma map_of_setitem: "map_of (setitem k v kvs) k' = (if k' = k then Some v else map_of kvs k')"
  by (induction kvs) auto

lemma getattr_setattr_same: "setattr p v c = Inr c' \<Longrightarrow> getattr p c' = Inr (Leaf v)"
proof (induction p v c arbitrary: c' rule: setattr.induct)
  case (4 k k' ks v fr kvs)
  then show ?case
    by (auto simp: map_of_setitem split: option.splits sum.splits)
qed (auto simp: map_of_setitem split: if_splits)

lemma getattr_setattr_other:
  "setattr p v c = Inr c' \<Longrightarrow> \<not> prefix p q \<Longrightarrow> \<not> prefix q p \<Longrightarrow> getattr q c' = getattr q c"
proof (induction p v c arbitrary: c' q rule: setattr.induct)
  case (3 k v fr kvs)
  then show ?case
    by (cases q) (auto simp: map_of_setitem split: if_splits)
next
  case (4 k k' ks v fr kvs)
  then show ?case
    by (cases q) (auto simp: map_of_setitem split: option.splits sum.splits)
qed auto

lemma all_immutable_set_immutable: "all_immutable b (set_immutable b c)"
  by (induction b c rule: set_immutable.induct) (auto simp: list_all_iff)

lemma list_all_setitem:
  "list_all (\<lambda>(k, c). P c) kvs \<Longrightarrow> P x \<Longrightarrow> list_all (\<lambda>(k, c). P c) (setitem k x kvs)"
  by (induction kvs) auto

lemma all_immutable_map_of:
  "list_all (\<lambda>(k, c). all_immutable b c) kvs \<Longrightarrow> map_of kvs k = Some c \<Longrightarrow> all_immutable b c"
  by (induction kvs) (auto split: if_splits)

lemma setattr_all_immutable:
  "setattr p v c = Inr c' \<Longrightarrow> all_immutable b c \<Longrightarrow> all_immutable b c'"
proof (induction p v c arbitrary: c' rule: setattr.induct)
  case (3 k v fr kvs)
  then show ?case by (auto split: if_splits intro!: list_all_setitem)
next
  case (4 k k' ks v fr kvs)
  from "4.prems"(1) obtain sub sub' where
    sub: "map_of kvs k = Some sub" and
    rec: "setattr (k' # ks) v sub = Inr sub'" and
    c': "c' = CN fr (setitem k sub' kvs)"
    by (auto split: option.splits sum.splits)
  from "4.prems"(2) have fr: "fr = b" and all: "list_all (\<lambda>(k, c). all_immutable b c) kvs"
    by auto
  have "all_immutable b sub" using all sub by (rule all_immutable_map_of)
  then have "all_immutable b sub'" using "4.IH"[OF sub rec] by simp
  then show ?case using c' fr all by (auto intro!: list_all_setitem)
qed auto

lemma setattr_frozen: "all_immutable True c \<Longrightarrow> setattr p v c = Inl AttributeError"
proof (induction p v c rule: setattr.induct)
  case (4 k k' ks v fr kvs)
  then show ?case
    by (auto split: option.splits sum.splits dest: all_immutable_map_of)
qed auto

lemma update_config_from_file_frozen:
  "update_config_from_file depth fs config f = Inr c \<Longrightarrow> all_immutable True c"
  by (cases depth)
     (auto simp: Let_def freeze_def all_immutable_set_immutable split: option.splits sum.splits)

lemma run_steps_invariant:
  assumes "run_steps steps s = Inr s'" and "P s"
    and "\<And>f t t'. f \<in> set steps \<Longrightarrow> P t \<Longrightarrow> f t = Inr t' \<Longrightarrow> P t'"
  shows "P s'"
  using assms
proof (induction steps arbitrary: s)
  case Nil
  then show ?case by simp
next
  case (Cons f steps)
  from Cons.prems(1) obtain t where ft: "f s = Inr t" and rest: "run_steps steps t = Inr s'"
    by (auto split: sum.splits)
  have pt: "P t" using Cons.prems(3)[of f s t] ft Cons.prems(2) by simp
  have step: "g \<in> set steps \<Longrightarrow> P u \<Longrightarrow> g u = Inr u' \<Longrightarrow> P u'" for g u u'
    using Cons.prems(3)[of g u u'] by simp
  show ?case using Cons.IH[OF rest pt step] by simp
qed

lemma run_steps_append:
  "run_steps (xs @ ys) s = (case run_steps xs s of Inl e \<Rightarrow> Inl e | Inr t \<Rightarrow> run_steps ys t)"
  by (induction xs arbitrary: s) (auto split: sum.splits)

lemma if_then_setattr_other:
  "if_then b (setattr p w) t = Inr t' \<Longrightarrow> \<not> prefix p q \<Longrightarrow> \<not> prefix q p \<Longrightarrow> getattr q t' = getattr q t"
  by (auto simp: if_then_def split: if_splits dest: getattr_setattr_other)

lemma set_amp_other:
  "set_amp t = Inr t' \<Longrightarrow> \<not> prefix [''AMP''] q \<Longrightarrow> \<not> prefix q [''AMP''] \<Longrightarrow> getattr q t' = getattr q t"
  by (auto simp: set_amp_def split: sum.splits if_splits dest: getattr_setattr_other)

lemma if_then_set_amp_other:
  "if_then b set_amp t = Inr t' \<Longrightarrow> \<not> prefix [''AMP''] q \<Longrightarrow> \<not> prefix q [''AMP''] \<Longrightarrow> getattr q t' = getattr q t"
  by (auto simp: if_then_def split: if_splits dest: set_amp_other)

lemma update_config_stages:
  assumes "update_config depth fs config a = Inr c'"
  obtains c0 c1 c2 c3 where
    "load_cfg_arg depth fs a config = Inr c0"
    "run_steps
       [if_then (truthy (arg_str (dataset a))) (setattr [''DATA'', ''DATASET''] (arg_str (dataset a))),
        if_then (truthy (arg_int (batch_size a))) (setattr [''DATA'', ''BATCH_SIZE''] (arg_int (batch_size a))),
        if_then (truthy (arg_int (image_size a))) (setattr [''DATA'', ''IMAGE_SIZE''] (arg_int (image_size a))),
        if_then (truthy (arg_str (data_path a))) (setattr [''DATA'', ''DATA_PATH''] (arg_str (data_path a))),
        if_then (truthy (arg_int (ngpus a))) (setattr [''NGPUS''] (arg_int (ngpus a)))]
       (defrost c0) = Inr c1"
    "if_then (eval a)
       (run_steps
          [setattr [''EVAL''] (PBool True),
           setattr [''DATA'', ''BATCH_SIZE_EVAL''] (arg_int (batch_size a))]) c1 = Inr c2"
    "run_steps
       [if_then (truthy (arg_str (pretrained a))) (setattr [''MODEL'', ''PRETRAINED''] (arg_str (pretrained a))),
        if_then (truthy (arg_str (resume a))) (setattr [''MODEL'', ''RESUME''] (arg_str (resume a))),
        if_then (truthy (arg_int (last_epoch a))) (setattr [''TRAIN'', ''LAST_EPOCH''] (arg_int (last_epoch a)))]
       c2 = Inr c3"
    "if_then (amp a) set_amp c3 = Inr c'"
proof -
  let ?pre = "[if_then (truthy (arg_str (dataset a))) (setattr [''DATA'', ''DATASET''] (arg_str (dataset a))),
        if_then (truthy (arg_int (batch_size a))) (setattr [''DATA'', ''BATCH_SIZE''] (arg_int (batch_size a))),
        if_then (truthy (arg_int (image_size a))) (setattr [''DATA'', ''IMAGE_SIZE''] (arg_int (image_size a))),
        if_then (truthy (arg_str (data_path a))) (setattr [''DATA'', ''DATA_PATH''] (arg_str (data_path a))),
        if_then (truthy (arg_int (ngpus a))) (setattr [''NGPUS''] (arg_int (ngpus a)))]"
  let ?ev = "if_then (eval a)
       (run_steps
          [setattr [''EVAL''] (PBool True),
           setattr [''DATA'', ''BATCH_SIZE_EVAL''] (arg_int (batch_size a))])"
  let ?post = "[if_then (truthy (arg_str (pretrained a))) (setattr [''MODEL'', ''PRETRAINED''] (arg_str (pretrained a))),
        if_then (truthy (arg_str (resume a))) (setattr [''MODEL'', ''RESUME''] (arg_str (resume a))),
        if_then (truthy (arg_int (last_epoch a))) (setattr [''TRAIN'', ''LAST_EPOCH''] (arg_int (last_epoch a)))]"
  have eq: "update_config depth fs config a =
      run_steps ([load_cfg_arg depth fs a, (\<lambda>c. Inr (defrost c))] @ ?pre @ [?ev] @ ?post @ [if_then (amp a) set_amp]) config"
    by (simp add: update_config_def)
  from assms obtain c0 where c0: "load_cfg_arg depth fs a config = Inr c0"
    and r1: "run_steps (?pre @ [?ev] @ ?post @ [if_then (amp a) set_amp]) (defrost c0) = Inr c'"
    unfolding eq run_steps_append[of "[load_cfg_arg depth fs a, (\<lambda>c. Inr (defrost c))]"]
    by (auto split: sum.splits)
  from r1 obtain c1 where c1: "run_steps ?pre (defrost c0) = Inr c1"
    and r2: "run_steps ([?ev] @ ?post @ [if_then (amp a) set_amp]) c1 = Inr c'"
    unfolding run_steps_append[of ?pre] by (auto split: sum.splits)
  from r2 obtain c2 where c2: "?ev c1 = Inr c2"
    and r3: "run_steps (?post @ [if_then (amp a) set_amp]) c2 = Inr c'"
    unfolding run_steps_append[of "[?ev]"] by (auto split: sum.splits)
  from r3 obtain c3 where c3: "run_steps ?post c2 = Inr c3"
    and r4: "if_then (amp a) set_amp c3 = Inr c'"
    unfolding run_steps_append[of ?post] by (auto split: sum.splits)
  show thesis using that[OF c0 c1 c2 c3 r4] .
qed

lemma eval_step_sets:
  assumes "if_then True
       (run_steps [setattr [''EVAL''] (PBool True), setattr [''DATA'', ''BATCH_SIZE_EVAL''] v]) c1 = Inr c2"
  shows "getattr [''DATA'', ''BATCH_SIZE_EVAL''] c2 = Inr (Leaf v)"
    and "getattr [''EVAL''] c2 = Inr (Leaf (PBool True))"
    and "getattr [''AMP''] c2 = getattr [''AMP''] c1"
proof -
  from assms obtain m where m: "setattr [''EVAL''] (PBool True) c1 = Inr m"
    and c2: "setattr [''DATA'', ''BATCH_SIZE_EVAL''] v m = Inr c2"
    by (auto simp: if_then_def split: sum.splits)
  show "getattr [''DATA'', ''BATCH_SIZE_EVAL''] c2 = Inr (Leaf v)"
    using c2 by (rule getattr_setattr_same)
  have "getattr [''EVAL''] c2 = getattr [''EVAL''] m"
    using c2 by (rule getattr_setattr_other) simp_all
  then show "getattr [''EVAL''] c2 = Inr (Leaf (PBool True))"
    using getattr_setattr_same[OF m] by simp
  have "getattr [''AMP''] c2 = getattr [''AMP''] m"
    using c2 by (rule getattr_setattr_other) simp_all
  also have "\<dots> = getattr [''AMP''] c1"
    using m by (rule getattr_setattr_other) simp_all
  finally show "getattr [''AMP''] c2 = getattr [''AMP''] c1" .
qed

section \<open>Evaluation mode and the evaluation batch size\<close>

text \<open>
  C10. When the eval flag is set, every configuration that \<open>update_config\<close> returns
  holds the command line's batch size at \<open>DATA.BATCH_SIZE_EVAL\<close>, whatever stood there
  before; when no batch size was given, that is \<open>None\<close>.
\<close>

theorem update_config_eval_overwrites_batch_size_eval:
  assumes "eval a" and "update_config depth fs config a = Inr c'"
  shows "getattr [''DATA'', ''BATCH_SIZE_EVAL''] c' = Inr (Leaf (arg_int (batch_size a)))
       \<and> (batch_size a = None \<longrightarrow> getattr [''DATA'', ''BATCH_SIZE_EVAL''] c' = Inr (Leaf PNone))"
proof -
  let ?q = "[''DATA'', ''BATCH_SIZE_EVAL'']"
  from assms(2) obtain c0 c1 c2 c3 where
    ev: "if_then (eval a)
       (run_steps
          [setattr [''EVAL''] (PBool True),
           setattr [''DATA'', ''BATCH_SIZE_EVAL''] (arg_int (batch_size a))]) c1 = Inr c2"
    and post: "run_steps
       [if_then (truthy (arg_str (pretrained a))) (setattr [''MODEL'', ''PRETRAINED''] (arg_str (pretrained a))),
        if_then (truthy (arg_str (resume a))) (setattr [''MODEL'', ''RESUME''] (arg_str (resume a))),
        if_then (truthy (arg_int (last_epoch a))) (setattr [''TRAIN'', ''LAST_EPOCH''] (arg_int (last_epoch a)))]
       c2 = Inr c3"
    and last: "if_then (amp a) set_amp c3 = Inr c'"
    by (rule update_config_stages)
  have at2: "getattr ?q c2 = Inr (Leaf (arg_int (batch_size a)))"
    using ev assms(1) eval_step_sets(1) by simp
  have at3: "getattr ?q c3 = Inr (Leaf (arg_int (batch_size a)))"
    using post at2
  proof (rule run_steps_invariant)
    fix f t t'
    assume f: "f \<in> set
       [if_then (truthy (arg_str (pretrained a))) (setattr [''MODEL'', ''PRETRAINED''] (arg_str (pretrained a))),
        if_then (truthy (arg_str (resume a))) (setattr [''MODEL'', ''RESUME''] (arg_str (resume a))),
        if_then (truthy (arg_int (last_epoch a))) (setattr [''TRAIN'', ''LAST_EPOCH''] (arg_int (last_epoch a)))]"
      and t: "getattr ?q t = Inr (Leaf (arg_int (batch_size a)))" and ft: "f t = Inr t'"
    have "getattr ?q t' = getattr ?q t"
      using f ft by (auto dest!: if_then_setattr_other[where q = ?q])
    then show "getattr ?q t' = Inr (Leaf (arg_int (batch_size a)))" using t by simp
  qed
  have "getattr ?q c' = getattr ?q c3"
    using last by (rule if_then_set_amp_other) simp_all
  then have main: "getattr ?q c' = Inr (Leaf (arg_int (batch_size a)))" using at3 by simp
  then show ?thesis by (auto simp: arg_int_def)
qed

theorem update_config_eval_overwrites_batch_size_eval_witness:
  "eval (no_args\<lparr>eval := True\<rparr>)
   \<and> batch_size (no_args\<lparr>eval := True\<rparr>) = None
   \<and> getattr [''DATA'', ''BATCH_SIZE_EVAL''] C_default = Inr (Leaf (PInt 8))
   \<and> value_at [''DATA'', ''BATCH_SIZE_EVAL'']
       (update_config 5 example_files C_default (no_args\<lparr>eval := True\<rparr>))
     = Inr (Leaf PNone)"
proof -
  let ?a = "no_args\<lparr>eval := True\<rparr>"
  have e: "eval ?a" and b: "batch_size ?a = None" by (simp_all add: no_args_def)
  have d: "getattr [''DATA'', ''BATCH_SIZE_EVAL''] C_default = Inr (Leaf (PInt 8))"
    by code_simp
  obtain c' where r: "update_config 5 example_files C_default ?a = Inr c'"
    by (cases "update_config 5 example_files C_default ?a") (code_simp, blast)
  from update_config_eval_overwrites_batch_size_eval[OF e r] b
  have "getattr [''DATA'', ''BATCH_SIZE_EVAL''] c' = Inr (Leaf PNone)"
    by (simp add: arg_int_def)
  then show ?thesis using e b d r by (simp add: value_at_def)
qed

section \<open>Evaluation mode and mixed precision\<close>

text \<open>
  C8, amended. With the eval flag set, the configuration that \<open>update_config\<close> returns
  has \<open>AMP\<close> false whenever the mixed-precision flag is given; when that flag is not
  given, \<open>AMP\<close> keeps the value it has once the configuration file (if any) is loaded
  and the tree is defrosted.
\<close>

theorem update_config_eval_amp:
  assumes "eval a" and "update_config depth fs config a = Inr c'"
  shows "\<exists>c0. load_cfg_arg depth fs a config = Inr c0
           \<and> getattr [''AMP''] c' =
               (if amp a then Inr (Leaf (PBool False)) else getattr [''AMP''] (defrost c0))"
proof -
  let ?q = "[''AMP'']"
  let ?e = "[''EVAL'']"
  from assms(2) obtain c0 c1 c2 c3 where
    load: "load_cfg_arg depth fs a config = Inr c0"
    and pre: "run_steps
       [if_then (truthy (arg_str (dataset a))) (setattr [''DATA'', ''DATASET''] (arg_str (dataset a))),
        if_then (truthy (arg_int (batch_size a))) (setattr [''DATA'', ''BATCH_SIZE''] (arg_int (batch_size a))),
        if_then (truthy (arg_int (image_size a))) (setattr [''DATA'', ''IMAGE_SIZE''] (arg_int (image_size a))),
        if_then (truthy (arg_str (data_path a))) (setattr [''DATA'', ''DATA_PATH''] (arg_str (data_path a))),
        if_then (truthy (arg_int (ngpus a))) (setattr [''NGPUS''] (arg_int (ngpus a)))]
       (defrost c0) = Inr c1"
    and ev: "if_then (eval a)
       (run_steps
          [setattr [''EVAL''] (PBool True),
           setattr [''DATA'', ''BATCH_SIZE_EVAL''] (arg_int (batch_size a))]) c1 = Inr c2"
    and post: "run_steps
       [if_then (truthy (arg_str (pretrained a))) (setattr [''MODEL'', ''PRETRAINED''] (arg_str (pretrained a))),
        if_then (truthy (arg_str (resume a))) (setattr [''MODEL'', ''RESUME''] (arg_str (resume a))),
        if_then (truthy (arg_int (last_epoch a))) (setattr [''TRAIN'', ''LAST_EPOCH''] (arg_int (last_epoch a)))]
       c2 = Inr c3"
    and last: "if_then (amp a) set_amp c3 = Inr c'"
    by (rule update_config_stages)
  have amp1: "getattr ?q c1 = getattr ?q (defrost c0)"
    using pre
  proof (rule run_steps_invariant)
    show "getattr ?q (defrost c0) = getattr ?q (defrost c0)" by simp
  next
    fix f t t'
    assume f: "f \<in> set
       [if_then (truthy (arg_str (dataset a))) (setattr [''DATA'', ''DATASET''] (arg_str (dataset a))),
        if_then (truthy (arg_int (batch_size a))) (setattr [''DATA'', ''BATCH_SIZE''] (arg_int (batch_size a))),
        if_then (truthy (arg_int (image_size a))) (setattr [''DATA'', ''IMAGE_SIZE''] (arg_int (image_size a))),
        if_then (truthy (arg_str (data_path a))) (setattr [''DATA'', ''DATA_PATH''] (arg_str (data_path a))),
        if_then (truthy (arg_int (ngpus a))) (setattr [''NGPUS''] (arg_int (ngpus a)))]"
      and t: "getattr ?q t = getattr ?q (defrost c0)" and ft: "f t = Inr t'"
    have "getattr ?q t' = getattr ?q t"
      using f ft by (auto dest!: if_then_setattr_other[where q = ?q])
    then show "getattr ?q t' = getattr ?q (defrost c0)" using t by simp
  qed
  have ev': "if_then True
       (run_steps
          [setattr [''EVAL''] (PBool True),
           setattr [''DATA'', ''BATCH_SIZE_EVAL''] (arg_int (batch_size a))]) c1 = Inr c2"
    using ev assms(1) by simp
  have amp2: "getattr ?q c2 = getattr ?q (defrost c0)"
    using eval_step_sets(3)[OF ev'] amp1 by simp
  have eval2: "getattr ?e c2 = Inr (Leaf (PBool True))"
    using eval_step_sets(2)[OF ev'] .
  have both3: "getattr ?q c3 = getattr ?q (defrost c0) \<and> getattr ?e c3 = Inr (Leaf (PBool True))"
    using post
  proof (rule run_steps_invariant)
    show "getattr ?q c2 = getattr ?q (defrost c0) \<and> getattr ?e c2 = Inr (Leaf (PBool True))"
      using amp2 eval2 by simp
  next
    fix f t t'
    assume f: "f \<in> set
       [if_then (truthy (arg_str (pretrained a))) (setattr [''MODEL'', ''PRETRAINED''] (arg_str (pretrained a))),
        if_then (truthy (arg_str (resume a))) (setattr [''MODEL'', ''RESUME''] (arg_str (resume a))),
        if_then (truthy (arg_int (last_epoch a))) (setattr [''TRAIN'', ''LAST_EPOCH''] (arg_int (last_epoch a)))]"
      and t: "getattr ?q t = getattr ?q (defrost c0) \<and> getattr ?e t = Inr (Leaf (PBool True))"
      and ft: "f t = Inr t'"
    have "getattr ?q t' = getattr ?q t"
      using f ft by (auto dest!: if_then_setattr_other[where q = ?q])
    moreover have "getattr ?e t' = getattr ?e t"
      using f ft by (auto dest!: if_then_setattr_other[where q = ?e])
    ultimately show "getattr ?q t' = getattr ?q (defrost c0) \<and> getattr ?e t' = Inr (Leaf (PBool True))"
      using t by simp
  qed
  have "getattr ?q c' = (if amp a then Inr (Leaf (PBool False)) else getattr ?q (defrost c0))"
  proof (cases "amp a")
    case True
    with last both3 have "setattr ?q (PBool False) c3 = Inr c'"
      by (simp add: if_then_def set_amp_def)
    then show ?thesis using True by (simp add: getattr_setattr_same)
  next
    case False
    with last have "c' = c3" by (simp add: if_then_def)
    then show ?thesis using False both3 by simp
  qed
  then show ?thesis using load by blast
qed

theorem update_config_eval_amp_witness:
  "eval (no_args\<lparr>eval := True, amp := True\<rparr>)
   \<and> value_at [''AMP''] (update_config 5 example_files C_default (no_args\<lparr>eval := True, amp := True\<rparr>))
       = Inr (Leaf (PBool False))"
proof -
  let ?a = "no_args\<lparr>eval := True, amp := True\<rparr>"
  have e: "eval ?a" by (simp add: no_args_def)
  obtain c' where r: "update_config 5 example_files C_default ?a = Inr c'"
    by (cases "update_config 5 example_files C_default ?a") (code_simp, blast)
  have am: "amp ?a" by (simp add: no_args_def)
  from update_config_eval_amp[OF e r] am
  have "getattr [''AMP''] c' = Inr (Leaf (PBool False))" by auto
  then show ?thesis using e r by (simp add: value_at_def)
qed

text \<open>
  As stated, C8 fails: with the eval flag set and the mixed-precision flag absent, a
  configuration file that sets \<open>AMP\<close> leaves it true.
\<close>

theorem update_config_eval_amp_counterexample:
  "eval (no_args\<lparr>cfg := Some ''configs/parent.yaml'', eval := True\<rparr>)
   \<and> value_at [''AMP'']
       (update_config 5 example_files C_default
          (no_args\<lparr>cfg := Some ''configs/parent.yaml'', eval := True\<rparr>))
     = Inr (Leaf (PBool True))"
  by code_simp

lemma all_immutable_False_not_frozen: "all_immutable False c \<Longrightarrow> \<not> is_frozen c"
  by (cases c) auto

lemma if_then_setattr_all_immutable:
  "if_then b (setattr p w) t = Inr t' \<Longrightarrow> all_immutable x t \<Longrightarrow> all_immutable x t'"
  by (auto simp: if_then_def split: if_splits dest: setattr_all_immutable)

lemma set_amp_all_immutable:
  "if_then b set_amp t = Inr t' \<Longrightarrow> all_immutable x t \<Longrightarrow> all_immutable x t'"
  by (auto simp: if_then_def set_amp_def split: if_splits sum.splits dest: setattr_all_immutable)

lemma update_config_defrosted:
  assumes "update_config depth fs config a = Inr c'"
  shows "all_immutable False c'"
proof -
  from assms obtain c0 c1 c2 c3 where
    pre: "run_steps
       [if_then (truthy (arg_str (dataset a))) (setattr [''DATA'', ''DATASET''] (arg_str (dataset a))),
        if_then (truthy (arg_int (batch_size a))) (setattr [''DATA'', ''BATCH_SIZE''] (arg_int (batch_size a))),
        if_then (truthy (arg_int (image_size a))) (setattr [''DATA'', ''IMAGE_SIZE''] (arg_int (image_size a))),
        if_then (truthy (arg_str (data_path a))) (setattr [''DATA'', ''DATA_PATH''] (arg_str (data_path a))),
        if_then (truthy (arg_int (ngpus a))) (setattr [''NGPUS''] (arg_int (ngpus a)))]
       (defrost c0) = Inr c1"
    and ev: "if_then (eval a)
       (run_steps
          [setattr [''EVAL''] (PBool True),
           setattr [''DATA'', ''BATCH_SIZE_EVAL''] (arg_int (batch_size a))]) c1 = Inr c2"
    and post: "run_steps
       [if_then (truthy (arg_str (pretrained a))) (setattr [''MODEL'', ''PRETRAINED''] (arg_str (pretrained a))),
        if_then (truthy (arg_str (resume a))) (setattr [''MODEL'', ''RESUME''] (arg_str (resume a))),
        if_then (truthy (arg_int (last_epoch a))) (setattr [''TRAIN'', ''LAST_EPOCH''] (arg_int (last_epoch a)))]
       c2 = Inr c3"
    and last: "if_then (amp a) set_amp c3 = Inr c'"
    by (rule update_config_stages)
  have i0: "all_immutable False (defrost c0)"
    by (simp add: defrost_def all_immutable_set_immutable)
  have i1: "all_immutable False c1"
    using pre i0 by (rule run_steps_invariant) (auto dest: if_then_setattr_all_immutable)
  have i2: "all_immutable False c2"
  proof (cases "eval a")
    case True
    with ev obtain m where "setattr [''EVAL''] (PBool True) c1 = Inr m"
      and "setattr [''DATA'', ''BATCH_SIZE_EVAL''] (arg_int (batch_size a)) m = Inr c2"
      by (auto simp: if_then_def split: sum.splits)
    then show ?thesis using i1 by (blast dest: setattr_all_immutable)
  next
    case False
    then show ?thesis using ev i1 by (simp add: if_then_def)
  qed
  have i3: "all_immutable False c3"
    using post i2 by (rule run_steps_invariant) (auto dest: if_then_setattr_all_immutable)
  show ?thesis using last i3 by (rule set_amp_all_immutable)
qed

section \<open>When the configuration is frozen\<close>

text \<open>
  C9, amended. A configuration returned by \<open>_update_config_from_file\<close>, and so by
  \<open>get_config\<close> with a file, is frozen in every node and rejects attribute assignment
  with AttributeError. A configuration returned by \<open>update_config\<close> is defrosted in
  every node (its closing \<open>freeze\<close> is commented out), and \<open>get_config\<close> without a
  file returns the unfrozen defaults.
\<close>

theorem config_frozen_only_after_file_load:
  "(update_config_from_file depth fs config f = Inr c1 \<longrightarrow>
      all_immutable True c1 \<and> setattr p v c1 = Inl AttributeError)
   \<and> (get_config depth fs (Some f) = Inr c2 \<and> f \<noteq> [] \<longrightarrow>
      all_immutable True c2 \<and> setattr p v c2 = Inl AttributeError)
   \<and> (update_config depth fs config a = Inr c3 \<longrightarrow> all_immutable False c3 \<and> \<not> is_frozen c3)
   \<and> get_config depth fs None = Inr C_default \<and> all_immutable False C_default"
proof (intro conjI impI)
  assume r: "update_config_from_file depth fs config f = Inr c1"
  show "all_immutable True c1" using r by (rule update_config_from_file_frozen)
  then show "setattr p v c1 = Inl AttributeError" by (rule setattr_frozen)
next
  assume "get_config depth fs (Some f) = Inr c2 \<and> f \<noteq> []"
  then have r: "update_config_from_file depth fs C_default f = Inr c2"
    by (auto simp: get_config_def arg_str_def)
  show "all_immutable True c2" using r by (rule update_config_from_file_frozen)
  then show "setattr p v c2 = Inl AttributeError" by (rule setattr_frozen)
next
  assume r: "update_config depth fs config a = Inr c3"
  show "all_immutable False c3" using r by (rule update_config_defrosted)
  then show "\<not> is_frozen c3" by (rule all_immutable_False_not_frozen)
next
  show "get_config depth fs None = Inr C_default" by (simp add: get_config_def arg_str_def)
  show "all_immutable False C_default" by code_simp
qed

theorem config_frozen_only_after_file_load_witness:
  "map_result (all_immutable True)
     (update_config_from_file 5 example_files C_default ''configs/child.yaml'') = Inr True
   \<and> then_setattr [''SEED''] (PInt 1)
       (update_config_from_file 5 example_files C_default ''configs/child.yaml'')
     = Inl AttributeError
   \<and> map_result (all_immutable True)
       (get_config 5 example_files (Some ''configs/child.yaml'')) = Inr True
   \<and> map_result (all_immutable False)
       (update_config 5 example_files C_default (no_args\<lparr>cfg := Some ''configs/child.yaml''\<rparr>))
     = Inr True"
proof -
  let ?a = "no_args\<lparr>cfg := Some ''configs/child.yaml''\<rparr>"
  obtain c1 where r1: "update_config_from_file 5 example_files C_default ''configs/child.yaml'' = Inr c1"
    by (cases "update_config_from_file 5 example_files C_default ''configs/child.yaml''") (code_simp, blast)
  have g: "get_config 5 example_files (Some ''configs/child.yaml'') = Inr c1"
    using r1 by (simp add: get_config_def arg_str_def)
  obtain c3 where r3: "update_config 5 example_files C_default ?a = Inr c3"
    by (cases "update_config 5 example_files C_default ?a") (code_simp, blast)
  note th = config_frozen_only_after_file_load
      [of 5 example_files C_default "''configs/child.yaml''" c1 "[''SEED'']" "PInt 1" c1 ?a c3]
  show ?thesis using th r1 g r3 by (simp add: then_setattr_def)
qed

text \<open>
  As stated, C9 fails: after \<open>update_config\<close> has loaded a file and applied the
  command line, the configuration is not frozen and accepts an assignment.
\<close>

theorem update_config_not_frozen_counterexample:
  "map_result is_frozen
     (update_config 5 example_files C_default (no_args\<lparr>cfg := Some ''configs/child.yaml''\<rparr>))
     = Inr False
   \<and> value_at [''SEED'']
       (then_setattr [''SEED''] (PInt 1)
          (update_config 5 example_files C_default (no_args\<lparr>cfg := Some ''configs/child.yaml''\<rparr>)))
     = Inr (Leaf (PInt 1))"
  by code_simp

lemma map_of_map_snd:
  "map_of (map (\<lambda>(k, c). (k, g c)) kvs) k = map_option g (map_of kvs k)"
  by (induction kvs) auto

lemma setitem_map:
  "setitem k (g x) (map (\<lambda>(k, c). (k, g c)) kvs) = map (\<lambda>(k, c). (k, g c)) (setitem k x kvs)"
  by (induction kvs) auto

lemma set_immutable_idem: "set_immutable b (set_immutable b' c) = set_immutable b c"
  by (induction b' c rule: set_immutable.induct) auto

lemma freeze_eq: "freeze = set_immutable True"
  by (simp add: fun_eq_iff freeze_def)

lemma defrost_eq: "defrost = set_immutable False"
  by (simp add: fun_eq_iff defrost_def)

lemma map_snd_fixed:
  "(\<And>k c. (k, c) \<in> set kvs \<Longrightarrow> g c = c) \<Longrightarrow> map (\<lambda>(k, c). (k, g c)) kvs = kvs"
  by (induction kvs) auto

lemma set_immutable_fixed: "all_immutable b c \<Longrightarrow> set_immutable b c = c"
proof (induction b c rule: set_immutable.induct)
  case (1 b v)
  then show ?case by simp
next
  case (2 b fr kvs)
  have "map (\<lambda>(k, c). (k, set_immutable b c)) kvs = kvs"
  proof (rule map_snd_fixed)
    fix k c assume m: "(k, c) \<in> set kvs"
    have "all_immutable b c" using "2.prems" m by (auto simp: list_all_iff)
    then show "set_immutable b c = c" using "2.IH"[OF m refl] by simp
  qed
  then show ?case using "2.prems" by simp
qed

lemma merge_set_immutable:
  "merge_a_into_b a (set_immutable b c) = map_result (set_immutable b) (merge_a_into_b a c)"
  "merge_value v (set_immutable b c) = map_result (set_immutable b) (merge_value v c)"
proof (induction a c and v c rule: merge_a_into_b_merge_value.induct)
  case (3 k v a fr kvs)
  show ?case
  proof (cases "map_of kvs k")
    case None
    then show ?thesis by (simp add: map_of_map_snd)
  next
    case (Some old)
    show ?thesis
    proof (cases "merge_value v old")
      case (Inl e)
      then show ?thesis using Some "3.IH"(1)[OF Some] by (simp add: map_of_map_snd)
    next
      case (Inr new)
      have "merge_a_into_b a (set_immutable b (CN fr (setitem k new kvs)))
            = map_result (set_immutable b) (merge_a_into_b a (CN fr (setitem k new kvs)))"
        using "3.IH"(2)[OF Some Inr] .
      then show ?thesis using Some Inr "3.IH"(1)[OF Some]
        by (simp add: map_of_map_snd setitem_map)
    qed
  qed
next
  case (4 v old)
  then show ?case by (simp split: sum.splits)
next
  case (7 d fr kvs)
  then show ?case by simp
qed simp_all

lemma merge_from_file_set_immutable:
  "merge_from_file fs (set_immutable b c) f = map_result (set_immutable b) (merge_from_file fs c f)"
  by (simp add: merge_from_file_def merge_set_immutable split: option.splits)

lemma merge_files_set_immutable:
  "merge_files fs order (set_immutable b c) = map_result (set_immutable b) (merge_files fs order c)"
proof (induction order arbitrary: c)
  case Nil
  then show ?case by simp
next
  case (Cons f order)
  then show ?case
    by (cases "merge_from_file fs c f") (simp_all add: merge_from_file_set_immutable)
qed

lemma merge_files_append:
  "merge_files fs (xs @ ys) c =
     (case merge_files fs xs c of Inl e \<Rightarrow> Inl e | Inr c' \<Rightarrow> merge_files fs ys c')"
  by (induction xs arbitrary: c) (auto split: sum.splits)

lemma update_follows_merge_order:
  "merge_order depth fs cfg_file = Inr order \<Longrightarrow>
     update_config_from_file depth fs config cfg_file
       = merge_files fs order (freeze config)"
  "bases_order depth fs cfg_file bases = Inr order \<Longrightarrow>
     map_result freeze (update_bases depth fs cfg_file bases config)
       = merge_files fs order (freeze config)"
proof (induction depth fs config cfg_file and depth fs cfg_file bases config
       arbitrary: order and order rule: update_config_from_file_update_bases.induct)
  case (1 fs config cfg_file)
  then show ?case by simp
next
  case (2 depth fs config cfg_file)
  from "2.prems" obtain yaml_cfg bases parents where
    y: "fs cfg_file = Some yaml_cfg" and b: "base_entries yaml_cfg = Inr bases"
    and p: "bases_order depth fs cfg_file bases = Inr parents"
    and o: "order = parents @ [cfg_file]"
    by (auto split: option.splits sum.splits)
  have ih: "map_result freeze (update_bases depth fs cfg_file bases (defrost config))
              = merge_files fs parents (freeze config)"
    using "2.IH"[OF refl y b p] by (simp add: freeze_eq defrost_eq set_immutable_idem)
  show ?case
  proof (cases "update_bases depth fs cfg_file bases (defrost config)")
    case (Inl e)
    then have m: "merge_files fs parents (freeze config) = Inl e"
      using ih by simp
    show ?thesis using Inl y b o m
      by (simp add: merge_files_append del: base_entries.simps)
  next
    case (Inr c)
    then have m: "merge_files fs parents (freeze config) = Inr (freeze c)"
      using ih by simp
    have "merge_from_file fs (freeze c) cfg_file = map_result freeze (merge_from_file fs c cfg_file)"
      by (simp add: freeze_eq merge_from_file_set_immutable)
    then show ?thesis using Inr y b o m
      by (simp add: merge_files_append del: base_entries.simps split: sum.splits)
  qed
next
  case (3 depth fs cfg_file config)
  then show ?case by simp
next
  case (4 depth fs cfg_file entry rest config)
  show ?case
  proof (cases "truthy entry")
    case False
    then show ?thesis using "4.IH"(3)[OF False] "4.prems" by simp
  next
    case True
    with "4.prems" obtain s first others where
      s: "entry = PStr s"
      and f: "merge_order depth fs (path_join (dirname cfg_file) s) = Inr first"
      and r: "bases_order depth fs cfg_file rest = Inr others"
      and o: "order = first @ others"
      by (auto split: pyval.splits sum.splits)
    have ih1: "update_config_from_file depth fs config (path_join (dirname cfg_file) s)
                 = merge_files fs first (freeze config)"
      using "4.IH"(1)[OF True s f] .
    show ?thesis
    proof (cases "update_config_from_file depth fs config (path_join (dirname cfg_file) s)")
      case (Inl e)
      then have m: "merge_files fs first (freeze config) = Inl e"
        using ih1 by simp
      show ?thesis using True s o Inl m by (simp add: merge_files_append)
    next
      case (Inr c)
      have fr: "freeze c = c"
        using update_config_from_file_frozen[OF Inr]
        by (simp add: freeze_eq set_immutable_fixed)
      have ih2: "map_result freeze (update_bases depth fs cfg_file rest c)
                   = merge_files fs others (freeze c)"
        using "4.IH"(2)[OF True s Inr r] .
      have m: "merge_files fs first (freeze config) = Inr c"
        using ih1 Inr by simp
      show ?thesis using True s o ih2 Inr fr m by (simp add: merge_files_append)
    qed
  qed
qed

section \<open>Parents before children\<close>

text \<open>
  C7. Whenever the files reachable through \<open>BASE\<close> can all be read within the
  recursion limit, \<open>_update_config_from_file\<close> returns what merging them one after
  the other gives, in the order parents first, depth first, the file itself last, so that
  the file's own keys override those of its parents. In the scenario of a parent with
  \<open>DATA.BATCH_SIZE = 16\<close> and a child with \<open>DATA.BATCH_SIZE = 32\<close> the result
  holds 32.
\<close>

theorem update_config_from_file_parent_first:
  assumes "merge_order depth fs cfg_file = Inr order"
  shows "update_config_from_file depth fs config cfg_file = merge_files fs order (freeze config)
       \<and> order \<noteq> [] \<and> last order = cfg_file"
proof -
  have "update_config_from_file depth fs config cfg_file = merge_files fs order (freeze config)"
    using assms by (rule update_follows_merge_order(1))
  moreover have "order \<noteq> [] \<and> last order = cfg_file"
    using assms by (cases depth) (auto split: option.splits sum.splits)
  ultimately show ?thesis by simp
qed

theorem update_config_from_file_parent_first_witness:
  "merge_order 5 example_files ''configs/child.yaml''
     = Inr [''configs/parent.yaml'', ''configs/child.yaml'']
   \<and> value_at [''DATA'', ''BATCH_SIZE'']
       (merge_files example_files [''configs/parent.yaml''] (freeze C_default))
     = Inr (Leaf (PInt 16))
   \<and> value_at [''DATA'', ''BATCH_SIZE'']
       (update_config_from_file 5 example_files C_default ''configs/child.yaml'')
     = Inr (Leaf (PInt 32))"
proof -
  have o: "merge_order 5 example_files ''configs/child.yaml''
             = Inr [''configs/parent.yaml'', ''configs/child.yaml'']"
    by code_simp
  have p: "value_at [''DATA'', ''BATCH_SIZE'']
             (merge_files example_files [''configs/parent.yaml''] (freeze C_default))
           = Inr (Leaf (PInt 16))"
    by code_simp
  have m: "value_at [''DATA'', ''BATCH_SIZE'']
             (merge_files example_files [''configs/parent.yaml'', ''configs/child.yaml'']
                (freeze C_default))
           = Inr (Leaf (PInt 32))"
    by code_simp
  show ?thesis
    using update_config_from_file_parent_first[OF o, of C_default] o p m by simp
qed

section \<open>Facts about tensors\<close>

lemma valid_index_Nil [simp]: "valid_index [] idx = (idx = [])"
  by (cases idx) (simp_all add: valid_index_def)

lemma valid_index_Cons [simp]:
  "valid_index (n # ns) idx = (\<exists>i is. idx = i # is \<and> i < n \<and> valid_index ns is)"
  by (cases idx) (simp_all add: valid_index_def)

lemma valid_index_length: "valid_index shp idx \<Longrightarrow> length idx = length shp"
  by (simp add: valid_index_def list_all2_lengthD)

lemma ravel_less: "valid_index shp idx \<Longrightarrow> ravel shp idx < prod_list shp"
proof (induction shp arbitrary: idx)
  case Nil
  then show ?case by simp
next
  case (Cons n ns)
  then obtain i "is" where idx: "idx = i # is" and i: "i < n" and v: "valid_index ns is"
    by auto
  have r: "ravel ns is < prod_list ns" using Cons.IH[OF v] .
  have "i * prod_list ns + ravel ns is < i * prod_list ns + prod_list ns"
    using r by simp
  also have "\<dots> = Suc i * prod_list ns" by simp
  also have "\<dots> \<le> n * prod_list ns" using i by (intro mult_le_mono1) simp
  finally show ?case using idx by simp
qed

lemma unravel_ravel: "valid_index shp idx \<Longrightarrow> unravel shp (ravel shp idx) = idx"
proof (induction shp arbitrary: idx)
  case Nil
  then show ?case by simp
next
  case (Cons n ns)
  then obtain i "is" where idx: "idx = i # is" and i: "i < n" and v: "valid_index ns is"
    by auto
  have r: "ravel ns is < prod_list ns" using v by (rule ravel_less)
  show ?case using idx r Cons.IH[OF v] by simp
qed

lemma valid_unravel: "p < prod_list shp \<Longrightarrow> valid_index shp (unravel shp p)"
proof (induction shp arbitrary: p)
  case Nil
  then show ?case by simp
next
  case (Cons n ns)
  then have lt: "p < n * prod_list ns" by simp
  then have pos: "0 < prod_list ns" by (cases "prod_list ns") auto
  have "p div prod_list ns < n"
    using lt pos by (simp add: less_mult_imp_div_less)
  moreover have "valid_index ns (unravel ns (p mod prod_list ns))"
    using pos by (intro Cons.IH) simp
  ultimately show ?case by simp
qed

lemma ravel_unravel: "p < prod_list shp \<Longrightarrow> ravel shp (unravel shp p) = p"
proof (induction shp arbitrary: p)
  case Nil
  then show ?case by simp
next
  case (Cons n ns)
  then have lt: "p < n * prod_list ns" by simp
  then have pos: "0 < prod_list ns" by (cases "prod_list ns") auto
  have "ravel ns (unravel ns (p mod prod_list ns)) = p mod prod_list ns"
    using pos by (intro Cons.IH) simp
  then show ?case by simp
qed

lemma shape_tabulate [simp]: "shape (tabulate shp f) = shp"
  by (simp add: tabulate_def)

lemma wf_tabulate [simp]: "wf_tensor (tabulate shp f)"
  by (simp add: tabulate_def wf_tensor_def)

lemma at_tabulate: "valid_index shp idx \<Longrightarrow> at (tabulate shp f) idx = f idx"
  by (simp add: at_def tabulate_def ravel_less unravel_ravel)

lemma tabulate_cong:
  "(\<And>idx. valid_index shp idx \<Longrightarrow> f idx = g idx) \<Longrightarrow> tabulate shp f = tabulate shp g"
  by (simp add: tabulate_def valid_unravel)

lemma at_reshaped_tabulate:
  assumes "valid_index shp idx" and "ravel shp' idx' = ravel shp idx"
  shows "at ((tabulate shp f)\<lparr>shape := shp'\<rparr>) idx' = f idx"
  using assms by (simp add: at_def tabulate_def ravel_less unravel_ravel)

lemma at_zeros: "valid_index shp idx \<Longrightarrow> at (zeros shp) idx = 0"
  by (simp add: zeros_def at_tabulate)

lemma tensor_eqI:
  assumes "wf_tensor a" "wf_tensor b" "shape a = shape b"
    and "\<And>idx. valid_index (shape a) idx \<Longrightarrow> at a idx = at b idx"
  shows "a = b"
proof -
  have len: "length (elems a) = length (elems b)"
    using assms(1-3) by (simp add: wf_tensor_def)
  have "elems a = elems b"
  proof (rule nth_equalityI[OF len])
    fix p assume "p < length (elems a)"
    then have p: "p < prod_list (shape a)" using assms(1) by (simp add: wf_tensor_def)
    have "at a (unravel (shape a) p) = at b (unravel (shape a) p)"
      using assms(4)[OF valid_unravel[OF p]] .
    then show "elems a ! p = elems b ! p"
      using p assms(3) by (simp add: at_def ravel_unravel)
  qed
  then show ?thesis using assms(3) by simp
qed

lemma tabulate_at: "wf_tensor t \<Longrightarrow> tabulate (shape t) (at t) = t"
  by (rule tensor_eqI) (simp_all add: at_tabulate)

lemma valid_index4:
  "valid_index [B, N, P, Q] idx = (\<exists>b n i k. idx = [b, n, i, k] \<and> b < B \<and> n < N \<and> i < P \<and> k < Q)"
  by auto

lemma valid_index3:
  "valid_index [B, N, P] idx = (\<exists>b n i. idx = [b, n, i] \<and> b < B \<and> n < N \<and> i < P)"
  by auto

lemma rel_to_abs_index_arith:
  fixes i k l :: nat
  assumes "i \<le> l" "k \<le> l"
  shows "i * (2 * l + 1) + (k + l) = i * (2 * Suc l) + (k + l - i)"
    and "k + l - i < 2 * l + 1"
    and "i * (2 * Suc l) + (k + l - i) < Suc l * 2 * Suc l"
proof -
  show "i * (2 * l + 1) + (k + l) = i * (2 * Suc l) + (k + l - i)"
    using assms by (simp add: algebra_simps)
  show "k + l - i < 2 * l + 1" using assms by simp
  have "i * (2 * Suc l) + (k + l - i) < i * (2 * Suc l) + 2 * Suc l"
    using assms by simp
  also have "\<dots> = Suc i * (2 * Suc l)" by simp
  also have "\<dots> \<le> Suc l * (2 * Suc l)"
    using assms(1) by (intro mult_le_mono1) simp
  finally show "i * (2 * Suc l) + (k + l - i) < Suc l * 2 * Suc l"
    by (simp add: mult.assoc)
qed

lemma rel_to_abs_closed_form:
  fixes x :: "'a::zero tensor"
  assumes sh: "shape x = [B, N, L, 2 * L - 1]" and L: "1 \<le> L"
    and B: "1 \<le> B" and N: "1 \<le> N"
  shows "rel_to_abs x =
           Some (tabulate [B, N, L, L]
                   (\<lambda>idx. at x [idx ! 0, idx ! 1, idx ! 2, idx ! 3 + (L - 1) - idx ! 2]))"
proof -
  obtain l where l: "L = Suc l" using L by (cases L) auto
  define f1 where "f1 = (\<lambda>idx. if idx ! 3 < 2 * l + 1 then at x idx
                               else at (zeros [B, N, L, 1] :: 'a tensor) (idx[3 := idx ! 3 - (2 * l + 1)]))"
  define x1 where "x1 = tabulate [B, N, L, 2 * l + 1 + 1] f1"
  have c1: "concat_axis 3 x (zeros [B, N, L, 1]) = Some x1"
    using sh l B N by (simp add: concat_axis_def zeros_def x1_def f1_def cong: if_cong)
  define flat where "flat = x1\<lparr>shape := [B, N, L * 2 * L]\<rparr>"
  have r1: "reshape x1 [B, N, L * 2 * L] = Some flat"
    using l by (simp add: reshape_def x1_def flat_def)
  define f2 where "f2 = (\<lambda>idx. if idx ! 2 < L * 2 * L then at flat idx
                               else at (zeros [B, N, L - 1] :: 'a tensor) (idx[2 := idx ! 2 - L * 2 * L]))"
  define flat2 where "flat2 = tabulate [B, N, L * 2 * L + (L - 1)] f2"
  have c2: "concat_axis 2 flat (zeros [B, N, L - 1]) = Some flat2"
    using l B N by (simp add: concat_axis_def zeros_def flat_def flat2_def f2_def cong: if_cong)
  define final where "final = flat2\<lparr>shape := [B, N, L + 1, 2 * L - 1]\<rparr>"
  have r2: "reshape flat2 [B, N, L + 1, 2 * L - 1] = Some final"
    using l by (simp add: reshape_def flat2_def final_def algebra_simps)
  have s: "slice_rows_cols L final =
             Some (tabulate [B, N, L, L]
                     (\<lambda>idx. at final [idx ! 0, idx ! 1, idx ! 2, idx ! 3 + (L - 1)]))"
    using l by (simp add: slice_rows_cols_def final_def)
  have run: "rel_to_abs x =
             Some (tabulate [B, N, L, L]
                     (\<lambda>idx. at final [idx ! 0, idx ! 1, idx ! 2, idx ! 3 + (L - 1)]))"
    using sh L c1 r1 c2 r2 s by (simp add: rel_to_abs_def)
  have "tabulate [B, N, L, L] (\<lambda>idx. at final [idx ! 0, idx ! 1, idx ! 2, idx ! 3 + (L - 1)])
        = tabulate [B, N, L, L]
            (\<lambda>idx. at x [idx ! 0, idx ! 1, idx ! 2, idx ! 3 + (L - 1) - idx ! 2])"
  proof (rule tabulate_cong)
    fix idx assume "valid_index [B, N, L, L] idx"
    then obtain b n i k where idx: "idx = [b, n, i, k]"
      and b: "b < B" and n: "n < N" and i: "i < L" and k: "k < L"
      unfolding valid_index4 by blast
    have il: "i \<le> l" and kl: "k \<le> l" using i k l by simp_all
    note ar = rel_to_abs_index_arith[OF il kl]
    let ?p = "i * (2 * Suc l) + (k + l - i)"
    have v2: "valid_index [B, N, L * 2 * L + (L - 1)] [b, n, ?p]"
      using b n ar(3) l by simp
    have e2: "ravel [B, N, L + 1, 2 * L - 1] [b, n, i, k + (L - 1)]
              = ravel [B, N, L * 2 * L + (L - 1)] [b, n, ?p]"
      using l ar(1) by (simp add: algebra_simps)
    have a1: "at final [b, n, i, k + (L - 1)] = f2 [b, n, ?p]"
      unfolding final_def flat2_def using v2 e2 by (rule at_reshaped_tabulate)
    have a2: "f2 [b, n, ?p] = at flat [b, n, ?p]"
      using ar(3) l by (simp add: f2_def)
    have v1: "valid_index [B, N, L, 2 * l + 1 + 1] [b, n, i, k + l - i]"
      using b n i ar(2) by simp
    have e1: "ravel [B, N, L * 2 * L] [b, n, ?p]
              = ravel [B, N, L, 2 * l + 1 + 1] [b, n, i, k + l - i]"
      using l by (simp add: algebra_simps)
    have a3: "at flat [b, n, ?p] = f1 [b, n, i, k + l - i]"
      unfolding flat_def x1_def using v1 e1 by (rule at_reshaped_tabulate)
    have a4: "f1 [b, n, i, k + l - i] = at x [b, n, i, k + l - i]"
      using ar(2) by (simp add: f1_def)
    show "at final [idx ! 0, idx ! 1, idx ! 2, idx ! 3 + (L - 1)]
          = at x [idx ! 0, idx ! 1, idx ! 2, idx ! 3 + (L - 1) - idx ! 2]"
      using a1 a2 a3 a4 idx l by simp
  qed
  then show ?thesis using run by simp
qed

text \<open>On an empty batch the first \<open>paddle.concat\<close> of \<open>rel_to_abs\<close> raises.\<close>

lemma rel_to_abs_empty:
  fixes x :: "'a::zero tensor"
  assumes "shape x = [B, N, L, M]" and "B = 0 \<or> N = 0"
  shows "rel_to_abs x = None"
  using assms by (auto simp: rel_to_abs_def concat_axis_def zeros_def)

lemma length_concat_uniform:
  "(\<And>r. r \<in> set rows \<Longrightarrow> length r = w) \<Longrightarrow> length (concat rows) = length rows * w"
  by (induction rows) auto

lemma nth_concat_uniform:
  "(\<And>r. r \<in> set rows \<Longrightarrow> length r = w) \<Longrightarrow> i < length rows \<Longrightarrow> j < w
     \<Longrightarrow> concat rows ! (i * w + j) = rows ! i ! j"
proof (induction rows arbitrary: i)
  case Nil
  then show ?case by simp
next
  case (Cons r rows)
  have lr: "length r = w" using Cons.prems(1) by simp
  show ?case
  proof (cases i)
    case 0
    then show ?thesis using lr Cons.prems(3) by (simp add: nth_append)
  next
    case (Suc i')
    have "concat rows ! (i' * w + j) = rows ! i' ! j"
      using Cons.IH[of i'] Cons.prems Suc by simp
    then show ?thesis using lr Suc by (simp add: nth_append)
  qed
qed

lemma rel_to_abs_steps_rows:
  fixes m :: "'a::zero list list"
  assumes len: "length m = Suc l" and rows: "\<And>r. r \<in> set m \<Longrightarrow> length r = 2 * l + 1"
  shows "\<exists>padded :: 'a list.
      length padded = (l + 2) * (2 * l + 1)
    \<and> rel_to_abs_steps (Suc l) m =
       map (\<lambda>r. drop l (take (2 * l + 1) (drop (r * (2 * l + 1)) padded))) [0..<Suc l]
    \<and> (\<forall>i j. i \<le> l \<longrightarrow> j < 2 * l + 1 \<longrightarrow> padded ! (i * (2 * Suc l) + j) = m ! i ! j)"
proof -
  let ?widened = "map (\<lambda>row. row @ [0]) m"
  define padded where "padded = concat ?widened @ replicate l (0::'a)"
  have w: "\<And>r. r \<in> set ?widened \<Longrightarrow> length r = 2 * Suc l"
    using rows by auto
  have lf: "length (concat ?widened) = Suc l * (2 * Suc l)"
    using length_concat_uniform[of ?widened "2 * Suc l"] w len by simp
  have lp: "length padded = (l + 2) * (2 * l + 1)"
    using lf by (simp add: padded_def algebra_simps)
  have "take (Suc l) (map (\<lambda>r. take (2 * l + 1) (drop (r * (2 * l + 1)) padded)) [0..<Suc l + 1])
        = map (\<lambda>r. take (2 * l + 1) (drop (r * (2 * l + 1)) padded)) [0..<Suc l]"
    by (simp add: take_map)
  then have st: "rel_to_abs_steps (Suc l) m =
       map (\<lambda>r. drop l (take (2 * l + 1) (drop (r * (2 * l + 1)) padded))) [0..<Suc l]"
    by (simp add: rel_to_abs_steps_def Let_def padded_def)
  have el: "padded ! (i * (2 * Suc l) + j) = m ! i ! j" if i: "i \<le> l" and j: "j < 2 * l + 1" for i j
  proof -
    have "i * (2 * Suc l) + j < i * (2 * Suc l) + 2 * Suc l" using j by simp
    also have "\<dots> = Suc i * (2 * Suc l)" by simp
    also have "\<dots> \<le> Suc l * (2 * Suc l)" using i by (intro mult_le_mono1) simp
    finally have inside: "i * (2 * Suc l) + j < length (concat ?widened)" using lf by simp
    have "padded ! (i * (2 * Suc l) + j) = concat ?widened ! (i * (2 * Suc l) + j)"
      using inside by (simp add: padded_def nth_append)
    also have "\<dots> = ?widened ! i ! j"
      using w i len j by (intro nth_concat_uniform) simp_all
    also have "\<dots> = m ! i ! j"
    proof -
      have "m ! i \<in> set m" using i len by simp
      then have "length (m ! i) = 2 * l + 1" by (rule rows)
      then show ?thesis using i len j by (simp add: nth_append)
    qed
    finally show ?thesis .
  qed
  show ?thesis using lp st el by blast
qed

lemma rel_to_abs_steps_length:
  fixes m :: "'a::zero list list"
  assumes "length m = Suc l" and "\<And>r. r \<in> set m \<Longrightarrow> length r = 2 * l + 1"
  shows "length (rel_to_abs_steps (Suc l) m) = Suc l"
proof -
  from rel_to_abs_steps_rows[OF assms] obtain padded :: "'a list" where
    "length padded = (l + 2) * (2 * l + 1)"
    and st: "rel_to_abs_steps (Suc l) m =
       map (\<lambda>r. drop l (take (2 * l + 1) (drop (r * (2 * l + 1)) padded))) [0..<Suc l]"
    by blast
  show ?thesis unfolding st by (simp del: upt_Suc)
qed

lemma rel_to_abs_steps_nth:
  fixes m :: "'a::zero list list"
  assumes len: "length m = Suc l" and rows: "\<And>r. r \<in> set m \<Longrightarrow> length r = 2 * l + 1"
    and i: "i \<le> l" and k: "k \<le> l"
  shows "length (rel_to_abs_steps (Suc l) m ! i) = Suc l"
    and "rel_to_abs_steps (Suc l) m ! i ! k = m ! i ! (k + l - i)"
proof -
  from rel_to_abs_steps_rows[OF len rows] obtain padded :: "'a list" where
    lp: "length padded = (l + 2) * (2 * l + 1)"
    and st: "rel_to_abs_steps (Suc l) m =
       map (\<lambda>r. drop l (take (2 * l + 1) (drop (r * (2 * l + 1)) padded))) [0..<Suc l]"
    and el: "\<And>i j. i \<le> l \<Longrightarrow> j < 2 * l + 1 \<Longrightarrow> padded ! (i * (2 * Suc l) + j) = m ! i ! j"
    by blast
  have ri: "rel_to_abs_steps (Suc l) m ! i = drop l (take (2 * l + 1) (drop (i * (2 * l + 1)) padded))"
    unfolding st using i by (simp del: upt_Suc)
  have "Suc i * (2 * l + 1) \<le> (l + 2) * (2 * l + 1)"
    using i by (intro mult_le_mono1) simp
  then have room: "i * (2 * l + 1) + (2 * l + 1) \<le> length padded"
    using lp by simp
  show "length (rel_to_abs_steps (Suc l) m ! i) = Suc l"
    unfolding ri using room by simp
  note ar = rel_to_abs_index_arith[OF i k]
  have "rel_to_abs_steps (Suc l) m ! i ! k = padded ! (i * (2 * l + 1) + (l + k))"
    unfolding ri using k room by simp
  also have "i * (2 * l + 1) + (l + k) = i * (2 * Suc l) + (k + l - i)"
    using ar(1) by (simp add: add.commute)
  also have "padded ! (i * (2 * Suc l) + (k + l - i)) = m ! i ! (k + l - i)"
    using i ar(2) by (rule el)
  finally show "rel_to_abs_steps (Suc l) m ! i ! k = m ! i ! (k + l - i)" .
qed

lemma length_matrix_at: "length (matrix_at t b n) = shape t ! 2"
  by (simp add: matrix_at_def)

lemma matrix_at_row:
  "i < shape t ! 2 \<Longrightarrow> matrix_at t b n ! i = map (\<lambda>k. at t [b, n, i, k]) [0..<shape t ! 3]"
  by (simp add: matrix_at_def del: upt_Suc)

lemma matrix_at_rows_length: "r \<in> set (matrix_at t b n) \<Longrightarrow> length r = shape t ! 3"
  by (auto simp: matrix_at_def simp del: upt_Suc)

lemma matrix_at_entry:
  "i < shape t ! 2 \<Longrightarrow> k < shape t ! 3 \<Longrightarrow> matrix_at t b n ! i ! k = at t [b, n, i, k]"
  by (simp add: matrix_at_row del: upt_Suc)

section \<open>The index conversion\<close>

text \<open>
  C1. For every non-empty input of shape \<open>(B, N, L, 2L - 1)\<close> (so \<open>L \<ge> 1\<close>, and
  \<open>B \<ge> 1\<close>, \<open>N \<ge> 1\<close>; on an empty tensor the framework's \<open>concat\<close> raises),
  \<open>rel_to_abs\<close> returns a tensor of shape \<open>(B, N, L, L)\<close> whose \<open>(b, n)\<close> row
  is what the listed steps give on the \<open>(b, n)\<close> row of the input: append a zero
  column, flatten, append \<open>L - 1\<close> zeros, cut into \<open>L + 1\<close> rows of \<open>2L - 1\<close>, keep
  rows \<open>0..L-1\<close> and columns \<open>L-1..2L-2\<close>.
\<close>

theorem rel_to_abs_steps_and_shape:
  fixes x :: "'a::zero tensor"
  assumes sh: "shape x = [B, N, L, 2 * L - 1]" and L: "1 \<le> L"
    and B: "1 \<le> B" and N: "1 \<le> N"
  shows "\<exists>out. rel_to_abs x = Some out \<and> shape out = [B, N, L, L] \<and> wf_tensor out
           \<and> (\<forall>b<B. \<forall>n<N. matrix_at out b n = rel_to_abs_steps L (matrix_at x b n))"
proof -
  obtain l where l: "L = Suc l" using L by (cases L) auto
  define out where
    "out = tabulate [B, N, L, L]
             (\<lambda>idx. at x [idx ! 0, idx ! 1, idx ! 2, idx ! 3 + (L - 1) - idx ! 2])"
  have run: "rel_to_abs x = Some out"
    unfolding out_def using sh L B N by (rule rel_to_abs_closed_form)
  have so: "shape out = [B, N, Suc l, Suc l]" using l by (simp add: out_def)
  have sx: "shape x = [B, N, Suc l, 2 * l + 1]" using sh l by simp
  have "matrix_at out b n = rel_to_abs_steps L (matrix_at x b n)" if b: "b < B" and n: "n < N" for b n
  proof -
    let ?m = "matrix_at x b n"
    have lm: "length ?m = Suc l" using sx by (simp add: length_matrix_at)
    have rm: "\<And>r. r \<in> set ?m \<Longrightarrow> length r = 2 * l + 1"
      using sx by (simp add: matrix_at_rows_length)
    have lo: "length (matrix_at out b n) = Suc l"
      using so by (simp add: length_matrix_at)
    show ?thesis
    proof (rule nth_equalityI)
      show "length (matrix_at out b n) = length (rel_to_abs_steps L ?m)"
        using lo rel_to_abs_steps_length[OF lm rm] l by simp
    next
      fix i assume "i < length (matrix_at out b n)"
      then have i: "i \<le> l" using lo by simp
      have lrow: "length (matrix_at out b n ! i) = Suc l"
        using i so by (simp add: matrix_at_row del: upt_Suc)
      show "matrix_at out b n ! i = rel_to_abs_steps L ?m ! i"
      proof (rule nth_equalityI)
        show "length (matrix_at out b n ! i) = length (rel_to_abs_steps L ?m ! i)"
          using rel_to_abs_steps_nth(1)[OF lm rm i i] lrow l by simp
      next
        fix k assume "k < length (matrix_at out b n ! i)"
        then have k: "k \<le> l" using lrow by simp
        have v: "valid_index [B, N, L, L] [b, n, i, k]"
          using b n i k l by simp
        have "matrix_at out b n ! i ! k = at out [b, n, i, k]"
          using i k so by (simp add: matrix_at_entry)
        also have "\<dots> = at x [b, n, i, k + l - i]"
          unfolding out_def using v l by (simp add: at_tabulate)
        also have "\<dots> = ?m ! i ! (k + l - i)"
          using i k sx by (simp add: matrix_at_entry)
        also have "\<dots> = rel_to_abs_steps L ?m ! i ! k"
          using rel_to_abs_steps_nth(2)[OF lm rm i k] l by simp
        finally show "matrix_at out b n ! i ! k = rel_to_abs_steps L ?m ! i ! k" .
      qed
    qed
  qed
  then show ?thesis using run so l by (auto simp: out_def)
qed

theorem rel_to_abs_steps_and_shape_witness:
  "shape x_example = [1, 1, 3, 2 * 3 - 1] \<and> (1::nat) \<le> 3 \<and> (1::nat) \<le> 1
   \<and> rel_to_abs x_example
       = Some \<lparr>shape = [1, 1, 3, 3], elems = [12, 13, 14, 21, 22, 23, 30, 31, 32]\<rparr>
   \<and> rel_to_abs_steps 3 (matrix_at x_example 0 0) = [[12, 13, 14], [21, 22, 23], [30, 31, 32]]
   \<and> matrix_at \<lparr>shape = [1, 1, 3, 3], elems = [12, 13, 14, 21, 22, 23, 30, 31, 32 :: int]\<rparr> 0 0
       = rel_to_abs_steps 3 (matrix_at x_example 0 0)"
proof -
  have sh: "shape x_example = [1, 1, 3, 2 * 3 - 1]" by (simp add: x_example_def)
  have L: "(1::nat) \<le> 3" and B: "(1::nat) \<le> 1" by simp_all
  have run: "rel_to_abs x_example
       = Some \<lparr>shape = [1, 1, 3, 3], elems = [12, 13, 14, 21, 22, 23, 30, 31, 32]\<rparr>"
    by code_simp
  have st: "rel_to_abs_steps 3 (matrix_at x_example 0 0) = [[12, 13, 14], [21, 22, 23], [30, 31, 32]]"
    by code_simp
  from rel_to_abs_steps_and_shape[OF sh L B B] run
  have "matrix_at \<lparr>shape = [1, 1, 3, 3], elems = [12, 13, 14, 21, 22, 23, 30, 31, 32 :: int]\<rparr> 0 0
       = rel_to_abs_steps 3 (matrix_at x_example 0 0)"
    by auto
  then show ?thesis using sh run st by simp
qed

lemma one_hot_position:
  fixes i j k i' l :: nat
  assumes "i \<le> l" "i' \<le> l" "k \<le> l"
  shows "(i' = i \<and> k + l - i' = j) \<longleftrightarrow> (l \<le> i + j \<and> i' = i \<and> k = i + j - l)"
  using assms by auto

text \<open>
  C2, amended. Fed the one-hot tensor of shape \<open>(B, N, L, 2L - 1)\<close> with its 1 at
  \<open>(b, n, i, j)\<close>, \<open>rel_to_abs\<close> returns the one-hot tensor of shape
  \<open>(B, N, L, L)\<close> with its 1 at \<open>(b, n, i, expected)\<close> where
  \<open>expected = i + j - (L - 1)\<close>, provided \<open>0 \<le> expected < L\<close>; for every other
  \<open>j\<close> the 1 falls outside the window and the result is zero everywhere.
\<close>

theorem rel_to_abs_one_hot:
  assumes L: "1 \<le> L" and b: "b < B" and n: "n < N" and i: "i < L" and j: "j < 2 * L - 1"
  shows "rel_to_abs (one_hot [B, N, L, 2 * L - 1] [b, n, i, j] :: 'a::zero_neq_one tensor)
         = Some (if L - 1 \<le> i + j \<and> i + j - (L - 1) < L
                 then one_hot [B, N, L, L] [b, n, i, i + j - (L - 1)]
                 else zeros [B, N, L, L])"
proof -
  obtain l where l: "L = Suc l" using L by (cases L) auto
  have B1: "1 \<le> B" and N1: "1 \<le> N" using b n by simp_all
  let ?x = "one_hot [B, N, L, 2 * L - 1] [b, n, i, j] :: 'a tensor"
  have sh: "shape ?x = [B, N, L, 2 * L - 1]" by (simp add: one_hot_def)
  have run: "rel_to_abs ?x =
           Some (tabulate [B, N, L, L]
                   (\<lambda>idx. at ?x [idx ! 0, idx ! 1, idx ! 2, idx ! 3 + (L - 1) - idx ! 2]))"
    using sh L B1 N1 by (rule rel_to_abs_closed_form)
  have "tabulate [B, N, L, L]
          (\<lambda>idx. at ?x [idx ! 0, idx ! 1, idx ! 2, idx ! 3 + (L - 1) - idx ! 2])
        = tabulate [B, N, L, L]
            (\<lambda>idx. if L - 1 \<le> i + j \<and> idx = [b, n, i, i + j - (L - 1)] then 1 else 0)"
  proof (rule tabulate_cong)
    fix idx assume "valid_index [B, N, L, L] idx"
    then obtain b' n' i' k where idx: "idx = [b', n', i', k]"
      and b': "b' < B" and n': "n' < N" and i': "i' < L" and k: "k < L"
      unfolding valid_index4 by blast
    have v: "valid_index [B, N, L, 2 * L - 1] [b', n', i', k + l - i']"
      using b' n' i' k l by simp
    have "at ?x [b', n', i', k + l - i'] = (if [b', n', i', k + l - i'] = [b, n, i, j] then 1 else 0)"
      unfolding one_hot_def using v by (rule at_tabulate)
    moreover have "([b', n', i', k + l - i'] = [b, n, i, j])
        \<longleftrightarrow> (l \<le> i + j \<and> [b', n', i', k] = [b, n, i, i + j - l])"
      using one_hot_position[of i l i' k j] i i' k l by auto
    ultimately show "at ?x [idx ! 0, idx ! 1, idx ! 2, idx ! 3 + (L - 1) - idx ! 2]
        = (if L - 1 \<le> i + j \<and> idx = [b, n, i, i + j - (L - 1)] then 1 else 0)"
      using idx l by simp
  qed
  also have "\<dots> = (if L - 1 \<le> i + j \<and> i + j - (L - 1) < L
                 then one_hot [B, N, L, L] [b, n, i, i + j - (L - 1)]
                 else zeros [B, N, L, L])"
  proof (cases "L - 1 \<le> i + j \<and> i + j - (L - 1) < L")
    case True
    then have c1: "L - 1 \<le> i + j" by blast
    have "tabulate [B, N, L, L]
            (\<lambda>idx. if L - 1 \<le> i + j \<and> idx = [b, n, i, i + j - (L - 1)] then 1 else (0::'a))
          = one_hot [B, N, L, L] [b, n, i, i + j - (L - 1)]"
      unfolding one_hot_def using c1 by (simp only: simp_thms)
    then show ?thesis using True by (simp only: if_True simp_thms)
  next
    case False
    have "tabulate [B, N, L, L]
            (\<lambda>idx. if L - 1 \<le> i + j \<and> idx = [b, n, i, i + j - (L - 1)] then 1 else (0::'a))
          = tabulate [B, N, L, L] (\<lambda>idx. 0)"
    proof (rule tabulate_cong)
      fix idx assume "valid_index [B, N, L, L] idx"
      then have "idx \<noteq> [b, n, i, i + j - (L - 1)] \<or> \<not> L - 1 \<le> i + j"
        using False unfolding valid_index4 by auto
      then show "(if L - 1 \<le> i + j \<and> idx = [b, n, i, i + j - (L - 1)] then 1 else (0::'a)) = 0"
        by auto
    qed
    then show ?thesis using False by (simp only: zeros_def if_False simp_thms)
  qed
  finally show ?thesis using run by simp
qed

theorem rel_to_abs_one_hot_witness:
  "(1::nat) \<le> 2 \<and> (0::nat) < 1 \<and> (2::nat) < 2 * 2 - 1
   \<and> rel_to_abs (one_hot [1, 1, 2, 2 * 2 - 1] [0, 0, 0, 2] :: int tensor)
       = Some (one_hot [1, 1, 2, 2] [0, 0, 0, 1])
   \<and> rel_to_abs (one_hot [1, 1, 2, 2 * 2 - 1] [0, 0, 0, 0] :: int tensor)
       = Some (zeros [1, 1, 2, 2])"
  using rel_to_abs_one_hot[of 2 0 1 0 1 0 2, where 'a = int]
        rel_to_abs_one_hot[of 2 0 1 0 1 0 0, where 'a = int]
  by simp

text \<open>
  As stated, with \<open>expected = i + L - 1 - j\<close>, C2 fails: for \<open>L = 2\<close> and the 1 at
  \<open>(0, 0, 0, 0)\<close> the claim puts the 1 at column \<open>0 + 2 - 1 - 0 = 1\<close> of row 0,
  while the result is zero everywhere.
\<close>

theorem rel_to_abs_one_hot_counterexample:
  "rel_to_abs (one_hot [1, 1, 2, 2 * 2 - 1] [0, 0, 0, 0] :: int tensor)
     \<noteq> Some (one_hot [1, 1, 2, 2] [0, 0, 0, 0 + 2 - 1 - 0])
   \<and> rel_to_abs (one_hot [1, 1, 2, 2 * 2 - 1] [0, 0, 0, 0] :: int tensor)
     = Some \<lparr>shape = [1, 1, 2, 2], elems = [0, 0, 0, 0]\<rparr>"
  by code_simp

subsection \<open>Properties of relative_logits_1d and RelPosEmb.forward\<close>

lemma valid_index5:
  "valid_index [A, B, C, D, E] idx
     = (\<exists>a b c d e. idx = [a, b, c, d, e] \<and> a < A \<and> b < B \<and> c < C \<and> d < D \<and> e < E)"
  by auto

lemma valid_index6:
  "valid_index [A, B, C, D, E, F] idx
     = (\<exists>a b c d e f. idx = [a, b, c, d, e, f]
          \<and> a < A \<and> b < B \<and> c < C \<and> d < D \<and> e < E \<and> f < F)"
  by auto

lemma merged_index_less:
  fixes n x :: nat
  assumes "n < N" "x < H"
  shows "n * H + x < N * H"
proof -
  have "n * H + x < n * H + H" using assms(2) by simp
  also have "\<dots> = Suc n * H" by simp
  also have "\<dots> \<le> N * H" using assms(1) by (intro mult_le_mono1) simp
  finally show ?thesis .
qed

lemma split_index_less:
  fixes p :: nat
  assumes "p < H * W"
  shows "p div W < H" and "p mod W < W"
proof -
  have pos: "0 < W" using assms by (cases W) auto
  show "p div W < H" using assms pos by (simp add: less_mult_imp_div_less mult.commute)
  show "p mod W < W" using pos by simp
qed

lemma reshape_infer_leading:
  assumes "shape t = B # dims" and "prod_list dims = prod_list rest" and "0 < prod_list rest"
  shows "reshape_infer t rest = Some (t\<lparr>shape := B # rest\<rparr>)"
  using assms by (simp add: reshape_infer_def Let_def)

lemma at_reshaped:
  "ravel shp' idx' = ravel (shape t) idx \<Longrightarrow> at (t\<lparr>shape := shp'\<rparr>) idx' = at t idx"
  by (simp add: at_def)

lemma ravel_merged_heads:
  "ravel [B, Nh * H, W, M] [b, n * H + x, y, k] = ravel [B, Nh, H, W, M] [b, n, x, y, k]"
  by (simp add: algebra_simps)

lemma relative_logits_1d_closed_form:
  fixes q :: "'a::semiring_0 tensor"
  assumes sq: "shape q = [B, Nh, H, W, D]" and sr: "shape rel_k = [2 * W - 1, D]"
    and B: "1 \<le> B" and Nh: "1 \<le> Nh" and H: "1 \<le> H" and W: "1 \<le> W"
  shows "relative_logits_1d q rel_k =
           Some (tabulate [B, Nh, H, H, W, W]
                   (\<lambda>idx. sum_list
                      (map (\<lambda>d. at q [idx ! 0, idx ! 1, idx ! 2, idx ! 4, d]
                                 * at rel_k [idx ! 5 + (W - 1) - idx ! 4, d])
                         [0..<D])))"
proof -
  let ?M = "2 * W - 1"
  define fe where "fe = (\<lambda>idx. sum_list
       (map (\<lambda>d. at q [idx ! 0, idx ! 1, idx ! 2, idx ! 3, d] * at rel_k [idx ! 4, d]) [0..<D]))"
  define e where "e = tabulate [B, Nh, H, W, ?M] fe"
  have s1: "einsum_bnhwd_md q rel_k = Some e"
    using sq sr by (simp add: einsum_bnhwd_md_def e_def fe_def)
  have Mpos: "0 < ?M" using W by simp
  define r1 where "r1 = e\<lparr>shape := [B, Nh * H, W, ?M]\<rparr>"
  have s2: "reshape_infer e [Nh * H, W, ?M] = Some r1"
    unfolding r1_def
    by (rule reshape_infer_leading[where dims = "[Nh, H, W, ?M]"])
       (use Nh H W Mpos in \<open>simp_all add: e_def mult.assoc\<close>)
  define fa where "fa = (\<lambda>idx. at r1 [idx ! 0, idx ! 1, idx ! 2, idx ! 3 + (W - 1) - idx ! 2])"
  define a where "a = tabulate [B, Nh * H, W, W] fa"
  have s3: "rel_to_abs r1 = Some a"
    unfolding a_def fa_def
    by (rule rel_to_abs_closed_form) (use B Nh H W in \<open>simp_all add: r1_def\<close>)
  define r2 where "r2 = a\<lparr>shape := [B, Nh, H, W, W]\<rparr>"
  have s4: "reshape_infer a [Nh, H, W, W] = Some r2"
    unfolding r2_def
    by (rule reshape_infer_leading[where dims = "[Nh * H, W, W]"])
       (use Nh H W in \<open>simp_all add: a_def mult.assoc\<close>)
  have s5: "expand_dim r2 3 H =
              Some (tabulate [B, Nh, H, H, W, W] (\<lambda>idx. at r2 (take 3 idx @ drop 4 idx)))"
    by (simp add: expand_dim_def r2_def)
  have run: "relative_logits_1d q rel_k =
              Some (tabulate [B, Nh, H, H, W, W] (\<lambda>idx. at r2 (take 3 idx @ drop 4 idx)))"
    using sq s1 s2 s3 s4 s5 by (simp add: relative_logits_1d_def)
  have "tabulate [B, Nh, H, H, W, W] (\<lambda>idx. at r2 (take 3 idx @ drop 4 idx))
        = tabulate [B, Nh, H, H, W, W]
            (\<lambda>idx. sum_list
               (map (\<lambda>d. at q [idx ! 0, idx ! 1, idx ! 2, idx ! 4, d]
                          * at rel_k [idx ! 5 + (W - 1) - idx ! 4, d])
                  [0..<D]))"
  proof (rule tabulate_cong)
    fix idx assume "valid_index [B, Nh, H, H, W, W] idx"
    then obtain b n x i y j where idx: "idx = [b, n, x, i, y, j]"
      and b: "b < B" and n: "n < Nh" and x: "x < H" and i: "i < H" and y: "y < W" and j: "j < W"
      unfolding valid_index6 by blast
    have nx: "n * H + x < Nh * H" using n x by (rule merged_index_less)
    have va: "valid_index [B, Nh * H, W, W] [b, n * H + x, y, j]"
      using b nx y j by simp
    have ea: "ravel [B, Nh, H, W, W] [b, n, x, y, j] = ravel [B, Nh * H, W, W] [b, n * H + x, y, j]"
      by (rule ravel_merged_heads[symmetric])
    have a1: "at r2 [b, n, x, y, j] = fa [b, n * H + x, y, j]"
      unfolding r2_def a_def using va ea by (rule at_reshaped_tabulate)
    have jy: "j + (W - 1) - y < ?M" using j y by simp
    have ve: "valid_index [B, Nh, H, W, ?M] [b, n, x, y, j + (W - 1) - y]"
      using b n x y jy by simp
    have ee: "ravel [B, Nh * H, W, ?M] [b, n * H + x, y, j + (W - 1) - y]
              = ravel [B, Nh, H, W, ?M] [b, n, x, y, j + (W - 1) - y]"
      by (rule ravel_merged_heads)
    have a2: "at r1 [b, n * H + x, y, j + (W - 1) - y] = fe [b, n, x, y, j + (W - 1) - y]"
      unfolding r1_def e_def using ve ee by (rule at_reshaped_tabulate)
    show "at r2 (take 3 idx @ drop 4 idx)
          = sum_list (map (\<lambda>d. at q [idx ! 0, idx ! 1, idx ! 2, idx ! 4, d]
                                * at rel_k [idx ! 5 + (W - 1) - idx ! 4, d]) [0..<D])"
      using a1 a2 idx by (simp add: fa_def fe_def)
  qed
  then show ?thesis using run by simp
qed

lemma ravel_split_positions:
  "ravel [B, Nh, H, W, D] [b, n, x, y, d] = ravel [B, Nh, H * W, D] [b, n, x * W + y, d]"
  by (simp add: algebra_simps)

lemma at_split_xy:
  assumes "shape q = [B, Nh, H * W, D]" and "p < H * W"
  shows "at (q\<lparr>shape := [B, Nh, H, W, D]\<rparr>) [b, n, p div W, p mod W, d] = at q [b, n, p, d]"
proof (rule at_reshaped)
  show "ravel [B, Nh, H, W, D] [b, n, p div W, p mod W, d] = ravel (shape q) [b, n, p, d]"
    unfolding assms(1) ravel_split_positions by simp
qed

lemma rel_logits_w_closed_form:
  fixes q :: "'a::semiring_0 tensor"
  assumes sq: "shape q = [B, Nh, H * W, D]" and sr: "shape rel_width = [2 * W - 1, D]"
    and hs: "height self = H" and ws: "width self = W"
    and B: "1 \<le> B" and Nh: "1 \<le> Nh" and H: "1 \<le> H" and W: "1 \<le> W"
  shows "rel_logits_w_of self rel_width q =
           Some (tabulate [B, Nh, H * W, H * W]
                   (\<lambda>idx. sum_list
                      (map (\<lambda>d. at q [idx ! 0, idx ! 1, idx ! 2, d]
                                 * at rel_width [idx ! 3 mod W + (W - 1) - idx ! 2 mod W, d])
                         [0..<D])))"
proof -
  define q5 where "q5 = q\<lparr>shape := [B, Nh, H, W, D]\<rparr>"
  have s1: "rearrange_split_xy (height self) (width self) q = Some q5"
    using sq hs ws by (simp add: rearrange_split_xy_def q5_def)
  define g where "g = (\<lambda>idx. sum_list
       (map (\<lambda>d. at q5 [idx ! 0, idx ! 1, idx ! 2, idx ! 4, d]
                  * at rel_width [idx ! 5 + (W - 1) - idx ! 4, d]) [0..<D]))"
  have s2: "relative_logits_1d q5 rel_width = Some (tabulate [B, Nh, H, H, W, W] g)"
    unfolding g_def by (rule relative_logits_1d_closed_form) (use sr B Nh H W in \<open>simp_all add: q5_def\<close>)
  have s3: "rearrange_merge_xy_ij (tabulate [B, Nh, H, H, W, W] g) =
              Some (tabulate [B, Nh, H * W, H * W]
                      (\<lambda>idx. at (tabulate [B, Nh, H, H, W, W] g)
                                [idx ! 0, idx ! 1, idx ! 2 div W, idx ! 3 div W,
                                 idx ! 2 mod W, idx ! 3 mod W]))"
    by (simp add: rearrange_merge_xy_ij_def)
  have run: "rel_logits_w_of self rel_width q =
              Some (tabulate [B, Nh, H * W, H * W]
                      (\<lambda>idx. at (tabulate [B, Nh, H, H, W, W] g)
                                [idx ! 0, idx ! 1, idx ! 2 div W, idx ! 3 div W,
                                 idx ! 2 mod W, idx ! 3 mod W]))"
    using s1 s2 s3 by (simp add: rel_logits_w_of_def)
  have "tabulate [B, Nh, H * W, H * W]
          (\<lambda>idx. at (tabulate [B, Nh, H, H, W, W] g)
                    [idx ! 0, idx ! 1, idx ! 2 div W, idx ! 3 div W, idx ! 2 mod W, idx ! 3 mod W])
        = tabulate [B, Nh, H * W, H * W]
            (\<lambda>idx. sum_list
               (map (\<lambda>d. at q [idx ! 0, idx ! 1, idx ! 2, d]
                          * at rel_width [idx ! 3 mod W + (W - 1) - idx ! 2 mod W, d])
                  [0..<D]))"
  proof (rule tabulate_cong)
    fix idx assume "valid_index [B, Nh, H * W, H * W] idx"
    then obtain b n p r where idx: "idx = [b, n, p, r]"
      and b: "b < B" and n: "n < Nh" and p: "p < H * W" and r: "r < H * W"
      unfolding valid_index4 by blast
    have v: "valid_index [B, Nh, H, H, W, W] [b, n, p div W, r div W, p mod W, r mod W]"
      using b n split_index_less[OF p] split_index_less[OF r] by simp
    have "at (tabulate [B, Nh, H, H, W, W] g) [b, n, p div W, r div W, p mod W, r mod W]
          = g [b, n, p div W, r div W, p mod W, r mod W]"
      using v by (rule at_tabulate)
    also have "\<dots> = sum_list (map (\<lambda>d. at q5 [b, n, p div W, p mod W, d]
                                      * at rel_width [r mod W + (W - 1) - p mod W, d]) [0..<D])"
      by (simp add: g_def)
    also have "\<dots> = sum_list (map (\<lambda>d. at q [b, n, p, d]
                                      * at rel_width [r mod W + (W - 1) - p mod W, d]) [0..<D])"
      unfolding q5_def using at_split_xy[OF sq p] by simp
    finally show "at (tabulate [B, Nh, H, H, W, W] g)
             [idx ! 0, idx ! 1, idx ! 2 div W, idx ! 3 div W, idx ! 2 mod W, idx ! 3 mod W]
          = sum_list (map (\<lambda>d. at q [idx ! 0, idx ! 1, idx ! 2, d]
                                * at rel_width [idx ! 3 mod W + (W - 1) - idx ! 2 mod W, d])
                        [0..<D])"
      using idx by simp
  qed
  then show ?thesis using run by simp
qed

lemma rel_logits_h_closed_form:
  fixes q :: "'a::semiring_0 tensor"
  assumes sq: "shape q = [B, Nh, H * W, D]" and sr: "shape rel_height = [2 * H - 1, D]"
    and hs: "height self = H" and ws: "width self = W"
    and B: "1 \<le> B" and Nh: "1 \<le> Nh" and H: "1 \<le> H" and W: "1 \<le> W"
  shows "rel_logits_h_of self rel_height q =
           Some (tabulate [B, Nh, H * W, H * W]
                   (\<lambda>idx. sum_list
                      (map (\<lambda>d. at q [idx ! 0, idx ! 1, idx ! 2, d]
                                 * at rel_height [idx ! 3 div W + (H - 1) - idx ! 2 div W, d])
                         [0..<D])))"
proof -
  define q5 where "q5 = q\<lparr>shape := [B, Nh, H, W, D]\<rparr>"
  have s1: "rearrange_split_xy (height self) (width self) q = Some q5"
    using sq hs ws by (simp add: rearrange_split_xy_def q5_def)
  define qT where
    "qT = tabulate [B, Nh, W, H, D] (\<lambda>idx. at q5 [idx ! 0, idx ! 1, idx ! 3, idx ! 2, idx ! 4])"
  have s2: "rearrange_swap_xy q5 = Some qT"
    by (simp add: rearrange_swap_xy_def q5_def qT_def)
  define g where "g = (\<lambda>idx. sum_list
       (map (\<lambda>d. at qT [idx ! 0, idx ! 1, idx ! 2, idx ! 4, d]
                  * at rel_height [idx ! 5 + (H - 1) - idx ! 4, d]) [0..<D]))"
  have s3: "relative_logits_1d qT rel_height = Some (tabulate [B, Nh, W, W, H, H] g)"
    unfolding g_def by (rule relative_logits_1d_closed_form) (use sr B Nh H W in \<open>simp_all add: qT_def\<close>)
  have s4: "rearrange_merge_yx_ji (tabulate [B, Nh, W, W, H, H] g) =
              Some (tabulate [B, Nh, H * W, H * W]
                      (\<lambda>idx. at (tabulate [B, Nh, W, W, H, H] g)
                                [idx ! 0, idx ! 1, idx ! 2 mod W, idx ! 3 mod W,
                                 idx ! 2 div W, idx ! 3 div W]))"
    by (simp add: rearrange_merge_yx_ji_def)
  have run: "rel_logits_h_of self rel_height q =
              Some (tabulate [B, Nh, H * W, H * W]
                      (\<lambda>idx. at (tabulate [B, Nh, W, W, H, H] g)
                                [idx ! 0, idx ! 1, idx ! 2 mod W, idx ! 3 mod W,
                                 idx ! 2 div W, idx ! 3 div W]))"
    using s1 s2 s3 s4 by (simp add: rel_logits_h_of_def)
  have "tabulate [B, Nh, H * W, H * W]
          (\<lambda>idx. at (tabulate [B, Nh, W, W, H, H] g)
                    [idx ! 0, idx ! 1, idx ! 2 mod W, idx ! 3 mod W, idx ! 2 div W, idx ! 3 div W])
        = tabulate [B, Nh, H * W, H * W]
            (\<lambda>idx. sum_list
               (map (\<lambda>d. at q [idx ! 0, idx ! 1, idx ! 2, d]
                          * at rel_height [idx ! 3 div W + (H - 1) - idx ! 2 div W, d])
                  [0..<D]))"
  proof (rule tabulate_cong)
    fix idx assume "valid_index [B, Nh, H * W, H * W] idx"
    then obtain b n p r where idx: "idx = [b, n, p, r]"
      and b: "b < B" and n: "n < Nh" and p: "p < H * W" and r: "r < H * W"
      unfolding valid_index4 by blast
    note sp = split_index_less[OF p] and sr' = split_index_less[OF r]
    have v: "valid_index [B, Nh, W, W, H, H] [b, n, p mod W, r mod W, p div W, r div W]"
      using b n sp sr' by simp
    have qt: "at qT [b, n, p mod W, p div W, d] = at q [b, n, p, d]" if d: "d < D" for d
    proof -
      have "valid_index [B, Nh, W, H, D] [b, n, p mod W, p div W, d]"
        using b n sp d by simp
      then have "at qT [b, n, p mod W, p div W, d] = at q5 [b, n, p div W, p mod W, d]"
        unfolding qT_def by (simp add: at_tabulate)
      then show ?thesis unfolding q5_def using at_split_xy[OF sq p] by simp
    qed
    have "at (tabulate [B, Nh, W, W, H, H] g) [b, n, p mod W, r mod W, p div W, r div W]
          = g [b, n, p mod W, r mod W, p div W, r div W]"
      using v by (rule at_tabulate)
    also have "\<dots> = sum_list (map (\<lambda>d. at qT [b, n, p mod W, p div W, d]
                                      * at rel_height [r div W + (H - 1) - p div W, d]) [0..<D])"
      by (simp add: g_def)
    also have "\<dots> = sum_list (map (\<lambda>d. at q [b, n, p, d]
                                      * at rel_height [r div W + (H - 1) - p div W, d]) [0..<D])"
      by (rule arg_cong[where f = sum_list], rule map_cong[OF refl]) (simp add: qt)
    finally show "at (tabulate [B, Nh, W, W, H, H] g)
             [idx ! 0, idx ! 1, idx ! 2 mod W, idx ! 3 mod W, idx ! 2 div W, idx ! 3 div W]
          = sum_list (map (\<lambda>d. at q [idx ! 0, idx ! 1, idx ! 2, d]
                                * at rel_height [idx ! 3 div W + (H - 1) - idx ! 2 div W, d])
                        [0..<D])"
      using idx by simp
  qed
  then show ?thesis using run by simp
qed

lemma swap_xy_less: "p < s * s \<Longrightarrow> swap_xy s p < s * s"
proof -
  assume p: "p < s * s"
  then have s: "0 < s" by (cases s) auto
  have "p mod s < s" using s by simp
  then have "p mod s \<le> s - 1" by simp
  then have "(p mod s) * s \<le> (s - 1) * s" by (rule mult_le_mono1)
  moreover have "p div s < s" using p s by (simp add: less_mult_imp_div_less)
  ultimately have "(p mod s) * s + p div s < (s - 1) * s + s" by (rule add_le_less_mono)
  also have "\<dots> = s * s" using s by (cases s) simp_all
  finally show ?thesis by (simp add: swap_xy_def)
qed

lemma swap_xy_mod: "p < s * s \<Longrightarrow> swap_xy s p mod s = p div s"
  by (cases "s = 0") (simp_all add: swap_xy_def less_mult_imp_div_less)

lemma swap_xy_div: "p < s * s \<Longrightarrow> swap_xy s p div s = p mod s"
  by (cases "s = 0") (simp_all add: swap_xy_def less_mult_imp_div_less)

lemma swap_xy_swap_xy: "p < s * s \<Longrightarrow> swap_xy s (swap_xy s p) = p"
proof -
  assume p: "p < s * s"
  have "swap_xy s (swap_xy s p) = (swap_xy s p mod s) * s + swap_xy s p div s"
    by (simp add: swap_xy_def)
  also have "\<dots> = (p div s) * s + p mod s"
    using p by (simp add: swap_xy_mod swap_xy_div)
  finally show ?thesis by simp
qed

lemma shape_transpose_query: "shape (transpose_query s q) = shape q"
  by (simp add: transpose_query_def)

lemma at_transpose_query:
  assumes "shape q = [B, Nh, P, D]" and "b < B" and "n < Nh" and "p < P" and "d < D"
  shows "at (transpose_query s q) [b, n, p, d] = at q [b, n, swap_xy s p, d]"
proof -
  have "valid_index (shape q) [b, n, p, d]" using assms by simp
  then show ?thesis unfolding transpose_query_def by (simp add: at_tabulate)
qed

lemma sum_list_map_cong:
  "(\<And>d. d < D \<Longrightarrow> f d = g d) \<Longrightarrow> sum_list (map f [0..<D]) = sum_list (map g [0..<D])"
  by (rule arg_cong[where f = sum_list], rule map_cong[OF refl]) simp

text \<open>The two logit tensors after the query positions have been transposed.\<close>

lemma transpose_logits_w_of_transposed:
  fixes q :: "'a::semiring_0 tensor"
  assumes sq: "shape q = [B, Nh, S * S, D]" and sr: "shape rel = [2 * S - 1, D]"
    and hs: "height self = S" and ws: "width self = S"
    and B: "1 \<le> B" and Nh: "1 \<le> Nh" and S: "1 \<le> S"
  shows "map_option (transpose_logits S) (rel_logits_w_of self rel (transpose_query S q))
         = rel_logits_h_of self rel q"
proof -
  let ?qT = "transpose_query S q"
  let ?fw = "\<lambda>idx. sum_list (map (\<lambda>d. at ?qT [idx ! 0, idx ! 1, idx ! 2, d]
                                 * at rel [idx ! 3 mod S + (S - 1) - idx ! 2 mod S, d]) [0..<D])"
  let ?fh = "\<lambda>idx. sum_list (map (\<lambda>d. at q [idx ! 0, idx ! 1, idx ! 2, d]
                                 * at rel [idx ! 3 div S + (S - 1) - idx ! 2 div S, d]) [0..<D])"
  have sqT: "shape ?qT = [B, Nh, S * S, D]" using sq by (simp add: shape_transpose_query)
  have w: "rel_logits_w_of self rel ?qT = Some (tabulate [B, Nh, S * S, S * S] ?fw)"
    using sqT sr hs ws B Nh S S by (rule rel_logits_w_closed_form)
  have h: "rel_logits_h_of self rel q = Some (tabulate [B, Nh, S * S, S * S] ?fh)"
    using sq sr hs ws B Nh S S by (rule rel_logits_h_closed_form)
  have "transpose_logits S (tabulate [B, Nh, S * S, S * S] ?fw)
        = tabulate [B, Nh, S * S, S * S] ?fh"
    unfolding transpose_logits_def shape_tabulate
  proof (rule tabulate_cong)
    fix idx assume "valid_index [B, Nh, S * S, S * S] idx"
    then obtain b n p r where idx: "idx = [b, n, p, r]"
      and b: "b < B" and n: "n < Nh" and p: "p < S * S" and r: "r < S * S"
      unfolding valid_index4 by blast
    have v: "valid_index [B, Nh, S * S, S * S] [b, n, swap_xy S p, swap_xy S r]"
      using b n swap_xy_less[OF p] swap_xy_less[OF r] by simp
    have "at (tabulate [B, Nh, S * S, S * S] ?fw) [b, n, swap_xy S p, swap_xy S r]
          = ?fw [b, n, swap_xy S p, swap_xy S r]"
      using v by (rule at_tabulate)
    also have "\<dots> = sum_list (map (\<lambda>d. at ?qT [b, n, swap_xy S p, d]
                                 * at rel [r div S + (S - 1) - p div S, d]) [0..<D])"
      using p r by (simp add: swap_xy_mod)
    also have "\<dots> = sum_list (map (\<lambda>d. at q [b, n, p, d]
                                 * at rel [r div S + (S - 1) - p div S, d]) [0..<D])"
    proof (rule sum_list_map_cong)
      fix d assume d: "d < D"
      have "at ?qT [b, n, swap_xy S p, d] = at q [b, n, swap_xy S (swap_xy S p), d]"
        using sq b n swap_xy_less[OF p] d by (rule at_transpose_query)
      then show "at ?qT [b, n, swap_xy S p, d] * at rel [r div S + (S - 1) - p div S, d]
               = at q [b, n, p, d] * at rel [r div S + (S - 1) - p div S, d]"
        using p by (simp add: swap_xy_swap_xy)
    qed
    finally show "at (tabulate [B, Nh, S * S, S * S] ?fw)
                    [idx ! 0, idx ! 1, swap_xy S (idx ! 2), swap_xy S (idx ! 3)] = ?fh idx"
      using idx by simp
  qed
  then show ?thesis using w h by simp
qed

lemma transpose_logits_h_of_transposed:
  fixes q :: "'a::semiring_0 tensor"
  assumes sq: "shape q = [B, Nh, S * S, D]" and sr: "shape rel = [2 * S - 1, D]"
    and hs: "height self = S" and ws: "width self = S"
    and B: "1 \<le> B" and Nh: "1 \<le> Nh" and S: "1 \<le> S"
  shows "map_option (transpose_logits S) (rel_logits_h_of self rel (transpose_query S q))
         = rel_logits_w_of self rel q"
proof -
  let ?qT = "transpose_query S q"
  let ?fh = "\<lambda>idx. sum_list (map (\<lambda>d. at ?qT [idx ! 0, idx ! 1, idx ! 2, d]
                                 * at rel [idx ! 3 div S + (S - 1) - idx ! 2 div S, d]) [0..<D])"
  let ?fw = "\<lambda>idx. sum_list (map (\<lambda>d. at q [idx ! 0, idx ! 1, idx ! 2, d]
                                 * at rel [idx ! 3 mod S + (S - 1) - idx ! 2 mod S, d]) [0..<D])"
  have sqT: "shape ?qT = [B, Nh, S * S, D]" using sq by (simp add: shape_transpose_query)
  have h: "rel_logits_h_of self rel ?qT = Some (tabulate [B, Nh, S * S, S * S] ?fh)"
    using sqT sr hs ws B Nh S S by (rule rel_logits_h_closed_form)
  have w: "rel_logits_w_of self rel q = Some (tabulate [B, Nh, S * S, S * S] ?fw)"
    using sq sr hs ws B Nh S S by (rule rel_logits_w_closed_form)
  have "transpose_logits S (tabulate [B, Nh, S * S, S * S] ?fh)
        = tabulate [B, Nh, S * S, S * S] ?fw"
    unfolding transpose_logits_def shape_tabulate
  proof (rule tabulate_cong)
    fix idx assume "valid_index [B, Nh, S * S, S * S] idx"
    then obtain b n p r where idx: "idx = [b, n, p, r]"
      and b: "b < B" and n: "n < Nh" and p: "p < S * S" and r: "r < S * S"
      unfolding valid_index4 by blast
    have v: "valid_index [B, Nh, S * S, S * S] [b, n, swap_xy S p, swap_xy S r]"
      using b n swap_xy_less[OF p] swap_xy_less[OF r] by simp
    have "at (tabulate [B, Nh, S * S, S * S] ?fh) [b, n, swap_xy S p, swap_xy S r]
          = ?fh [b, n, swap_xy S p, swap_xy S r]"
      using v by (rule at_tabulate)
    also have "\<dots> = sum_list (map (\<lambda>d. at ?qT [b, n, swap_xy S p, d]
                                 * at rel [r mod S + (S - 1) - p mod S, d]) [0..<D])"
      using p r by (simp add: swap_xy_div)
    also have "\<dots> = sum_list (map (\<lambda>d. at q [b, n, p, d]
                                 * at rel [r mod S + (S - 1) - p mod S, d]) [0..<D])"
    proof (rule sum_list_map_cong)
      fix d assume d: "d < D"
      have "at ?qT [b, n, swap_xy S p, d] = at q [b, n, swap_xy S (swap_xy S p), d]"
        using sq b n swap_xy_less[OF p] d by (rule at_transpose_query)
      then show "at ?qT [b, n, swap_xy S p, d] * at rel [r mod S + (S - 1) - p mod S, d]
               = at q [b, n, p, d] * at rel [r mod S + (S - 1) - p mod S, d]"
        using p by (simp add: swap_xy_swap_xy)
    qed
    finally show "at (tabulate [B, Nh, S * S, S * S] ?fh)
                    [idx ! 0, idx ! 1, swap_xy S (idx ! 2), swap_xy S (idx ! 3)] = ?fw idx"
      using idx by simp
  qed
  then show ?thesis using w h by simp
qed

text \<open>
  C4, amended. With \<open>height = width = S\<close>, one table \<open>rel\<close> used for both
  \<open>rel_height\<close> and \<open>rel_width\<close>, and a non-empty query (batch, heads and
  \<open>dim_head\<close> at least 1), the height logits and the width logits of
  \<open>RelPosEmb.forward\<close> are both computed, and they are mutual transposes once the
  spatial positions of the input query are transposed as well: the height logits of
  \<open>q\<close> are the transpose (x and y swapped in the query and the key index) of the
  width logits of the transposed query, and the width logits of \<open>q\<close> are the
  transpose of the height logits of the transposed query.
\<close>

theorem rel_logits_height_width_transpose:
  fixes q :: "'a::semiring_0 tensor"
  assumes "height self = S" and "width self = S"
    and "shape q = [B, Nh, S * S, D]" and "shape rel = [2 * S - 1, D]"
    and "1 \<le> B" and "1 \<le> Nh" and "1 \<le> S" and "1 \<le> D"
  shows "\<exists>lh lw. rel_logits_h_of self rel q = Some lh
               \<and> rel_logits_w_of self rel q = Some lw
               \<and> map_option (transpose_logits S) (rel_logits_w_of self rel (transpose_query S q))
                   = Some lh
               \<and> map_option (transpose_logits S) (rel_logits_h_of self rel (transpose_query S q))
                   = Some lw"
proof -
  have h: "\<exists>lh. rel_logits_h_of self rel q = Some lh"
    using rel_logits_h_closed_form[OF assms(3) assms(4) assms(1) assms(2) assms(5) assms(6) assms(7) assms(7)]
    by blast
  have w: "\<exists>lw. rel_logits_w_of self rel q = Some lw"
    using rel_logits_w_closed_form[OF assms(3) assms(4) assms(1) assms(2) assms(5) assms(6) assms(7) assms(7)]
    by blast
  show ?thesis
    using h w
      transpose_logits_w_of_transposed[OF assms(3) assms(4) assms(1) assms(2) assms(5) assms(6) assms(7)]
      transpose_logits_h_of_transposed[OF assms(3) assms(4) assms(1) assms(2) assms(5) assms(6) assms(7)]
    by auto
qed

theorem rel_logits_height_width_transpose_witness:
  "height pos_example = 2 \<and> width pos_example = 2
   \<and> shape q_example = [1, 1, 2 * 2, 1] \<and> shape rel_example = [2 * 2 - 1, 1]
   \<and> (1::nat) \<le> 1 \<and> (1::nat) \<le> 2
   \<and> rel_logits_h_of pos_example rel_example q_example
       = Some \<lparr>shape = [1, 1, 4, 4],
               elems = [10, 10, 100, 100, 20, 20, 200, 200, 3, 3, 30, 30, 4, 4, 40, 40]\<rparr>
   \<and> map_option (transpose_logits 2)
       (rel_logits_w_of pos_example rel_example (transpose_query 2 q_example))
       = rel_logits_h_of pos_example rel_example q_example
   \<and> map_option (transpose_logits 2)
       (rel_logits_h_of pos_example rel_example (transpose_query 2 q_example))
       = rel_logits_w_of pos_example rel_example q_example"
proof -
  have a: "height pos_example = 2" "width pos_example = 2"
    by (simp_all add: pos_example_def)
  have b: "shape q_example = [1, 1, 2 * 2, 1]" "shape rel_example = [2 * 2 - 1, 1]"
    by (simp_all add: q_example_def rel_example_def)
  have c: "rel_logits_h_of pos_example rel_example q_example
       = Some \<lparr>shape = [1, 1, 4, 4],
               elems = [10, 10, 100, 100, 20, 20, 200, 200, 3, 3, 30, 30, 4, 4, 40, 40]\<rparr>"
    by code_simp
  show ?thesis
    using rel_logits_height_width_transpose[OF a b] a b c by auto
qed

text \<open>
  As stated, for the two tensors of one call of \<open>forward\<close> on the same query, C4
  fails: on a 2 by 2 map with the table \<open>[1, 10, 100]\<close> and the query
  \<open>[1, 2, 3, 4]\<close> the height logits are not the transpose of the width logits.
\<close>

theorem rel_logits_height_width_transpose_counterexample:
  "rel_logits_h_of pos_example rel_example q_example
     = Some \<lparr>shape = [1, 1, 4, 4],
             elems = [10, 10, 100, 100, 20, 20, 200, 200, 3, 3, 30, 30, 4, 4, 40, 40]\<rparr>
   \<and> map_option (transpose_logits 2) (rel_logits_w_of pos_example rel_example q_example)
     = Some \<lparr>shape = [1, 1, 4, 4],
             elems = [10, 10, 100, 100, 30, 30, 300, 300, 2, 2, 20, 20, 4, 4, 40, 40]\<rparr>
   \<and> rel_logits_h_of pos_example rel_example q_example
     \<noteq> map_option (transpose_logits 2) (rel_logits_w_of pos_example rel_example q_example)"
  by code_simp

subsection \<open>Properties of MHSA.forward\<close>

lemma conv2d_1x1_shape:
  fixes x :: "'a::semiring_0 tensor"
  assumes "shape weight = [Cout, Cin, 1, 1]" and "shape x = [B, Cin, H, W]"
  shows "\<exists>y. conv2d_1x1 weight x = Some y \<and> shape y = [B, Cout, H, W]"
  using assms by (simp add: conv2d_1x1_def)

lemma conv2d_1x1_channel_mismatch:
  fixes x :: "'a::semiring_0 tensor"
  assumes "shape weight = [Cout, Cin, 1, 1]" and "shape x = [B, C, H, W]" and "C \<noteq> Cin"
  shows "conv2d_1x1 weight x = None"
  using assms by (simp add: conv2d_1x1_def)

lemma chunk2_axis1_shape:
  assumes "shape t = [B, C * 2, H, W]"
  shows "\<exists>q k. chunk2_axis1 t = Some (q, k) \<and> shape q = [B, C, H, W] \<and> shape k = [B, C, H, W]"
  using assms by (simp add: chunk2_axis1_def)

lemma rearrange_heads_shape:
  assumes "shape t = [B, h * d, H, W]" and "1 \<le> h"
  shows "\<exists>r. rearrange_heads h t = Some r \<and> shape r = [B, h, H * W, d]"
  using assms by (simp add: rearrange_heads_def)

lemma shape_tensor_scale: "shape (tensor_scale s t) = shape t"
  by (simp add: tensor_scale_def)

lemma einsum_bhxd_bhyd_shape:
  fixes q :: "'a::semiring_0 tensor"
  assumes "shape q = [B, h, X, D]" and "shape k = [B, h, Y, D]"
  shows "\<exists>l. einsum_bhxd_bhyd q k = Some l \<and> shape l = [B, h, X, Y]"
  using assms by (simp add: einsum_bhxd_bhyd_def)

lemma einsum_bhxy_bhyd_shape:
  fixes w :: "'a::semiring_0 tensor"
  assumes "shape w = [B, h, X, Y]" and "shape v = [B, h, Y, D]"
  shows "\<exists>a. einsum_bhxy_bhyd w v = Some a \<and> shape a = [B, h, X, D]"
  using assms by (simp add: einsum_bhxy_bhyd_def)

lemma shape_softmax_last: "shape (softmax_last expf t) = shape t"
  by (simp add: softmax_last_def)

lemma rearrange_unheads_shape:
  assumes "shape t = [B, h, H * W, d]" and "1 \<le> H"
  shows "\<exists>r. rearrange_unheads H t = Some r \<and> shape r = [B, h * d, H, W]"
  using assms by (simp add: rearrange_unheads_def)

lemma tensor_add_shape:
  assumes "shape a = s" and "shape b = s"
  shows "\<exists>c. tensor_add a b = Some c \<and> shape c = s"
  using assms by (simp add: tensor_add_def)

lemma RelPosEmb_forward_shape:
  fixes q :: "'a::semiring_0 tensor"
  assumes sq: "shape q = [B, Nh, H * W, D]"
    and sh: "shape rel_h = [2 * H - 1, D]" and sw: "shape rel_w = [2 * W - 1, D]"
    and hs: "height self = H" and ws: "width self = W"
    and B: "1 \<le> B" and Nh: "1 \<le> Nh" and H: "1 \<le> H" and W: "1 \<le> W"
  shows "\<exists>p. RelPosEmb_forward self rel_h rel_w q = Some p \<and> shape p = [B, Nh, H * W, H * W]"
proof -
  obtain lw where lw: "rel_logits_w_of self rel_w q = Some lw"
    and slw: "shape lw = [B, Nh, H * W, H * W]"
    using rel_logits_w_closed_form[OF sq sw hs ws B Nh H W] by simp
  obtain lh where lh: "rel_logits_h_of self rel_h q = Some lh"
    and slh: "shape lh = [B, Nh, H * W, H * W]"
    using rel_logits_h_closed_form[OF sq sh hs ws B Nh H W] by simp
  obtain p where "tensor_add lw lh = Some p" and "shape p = [B, Nh, H * W, H * W]"
    using tensor_add_shape[OF slw slh] by blast
  then show ?thesis using lw lh by (simp add: RelPosEmb_forward_def)
qed

lemma RelPosEmb_forward_size_mismatch:
  fixes q :: "'a::semiring_0 tensor"
  assumes "shape q = [B, Nh, N, D]" and "N \<noteq> height self * width self"
  shows "RelPosEmb_forward self rel_h rel_w q = None"
  using assms by (simp add: RelPosEmb_forward_def rel_logits_w_of_def rearrange_split_xy_def)

lemma MHSA_init_Some:
  assumes "MHSA_init dim (fh, fw) hds dqk dv flag = Some self"
  shows "self = \<lparr>mhsa_dim = dim, heads = hds, dim_qk = dqk, dim_v = dv,
                  pos_emb = \<lparr>height = fh, width = fw, dim_head = dqk\<rparr>\<rparr>
         \<and> 1 \<le> dqk \<and> 1 \<le> fh \<and> 1 \<le> fw"
  using assms by (auto simp: MHSA_init_def RelPosEmb_init_def split: if_splits)

lemma MHSA_forward_channel_mismatch:
  fixes featuremap :: "'a::field tensor"
  assumes init: "MHSA_init dim (fh, fw) hds dqk dv flag = Some self"
    and wsh: "MHSA_weight_shapes self ws"
    and x: "shape featuremap = [B, C, H, W]"
    and C: "C \<noteq> dim"
  shows "MHSA_forward expf self ws featuremap = None"
proof -
  note i = MHSA_init_Some[OF init]
  have w_qk: "shape (to_qk_weight ws) = [hds * dqk * 2, dim, 1, 1]"
    using wsh i by (simp add: MHSA_weight_shapes_def)
  have "conv2d_1x1 (to_qk_weight ws) featuremap = None"
    using w_qk x C by (rule conv2d_1x1_channel_mismatch)
  then show ?thesis using x by (simp add: MHSA_forward_def)
qed

lemma MHSA_forward_size_mismatch:
  fixes featuremap :: "'a::field tensor"
  assumes init: "MHSA_init dim (fh, fw) hds dqk dv flag = Some self"
    and wsh: "MHSA_weight_shapes self ws"
    and hds: "1 \<le> hds"
    and x: "shape featuremap = [B, dim, H, W]"
    and hw: "H * W \<noteq> fh * fw"
  shows "MHSA_forward expf self ws featuremap = None"
proof -
  note i = MHSA_init_Some[OF init]
  have self: "heads self = hds" "height (pos_emb self) = fh" "width (pos_emb self) = fw"
    using i by simp_all
  have w_qk: "shape (to_qk_weight ws) = [hds * dqk * 2, dim, 1, 1]"
    and w_v: "shape (to_v_weight ws) = [hds * dv, dim, 1, 1]"
    using wsh i by (simp_all add: MHSA_weight_shapes_def)
  obtain qk where qk: "conv2d_1x1 (to_qk_weight ws) featuremap = Some qk"
    and sqk: "shape qk = [B, hds * dqk * 2, H, W]"
    using conv2d_1x1_shape[OF w_qk x] by blast
  obtain q0 k0 where ch: "chunk2_axis1 qk = Some (q0, k0)"
    and sq0: "shape q0 = [B, hds * dqk, H, W]" and sk0: "shape k0 = [B, hds * dqk, H, W]"
    using chunk2_axis1_shape[OF sqk] by blast
  obtain v0 where v0: "conv2d_1x1 (to_v_weight ws) featuremap = Some v0"
    and sv0: "shape v0 = [B, hds * dv, H, W]"
    using conv2d_1x1_shape[OF w_v x] by blast
  obtain q1 where q1: "rearrange_heads hds q0 = Some q1" and sq1: "shape q1 = [B, hds, H * W, dqk]"
    using rearrange_heads_shape[OF sq0 hds] by blast
  obtain k1 where k1: "rearrange_heads hds k0 = Some k1" and sk1: "shape k1 = [B, hds, H * W, dqk]"
    using rearrange_heads_shape[OF sk0 hds] by blast
  obtain v1 where v1: "rearrange_heads hds v0 = Some v1" and sv1: "shape v1 = [B, hds, H * W, dv]"
    using rearrange_heads_shape[OF sv0 hds] by blast
  define q2 where "q2 = tensor_scale (mhsa_scale ws) q1"
  have sq2: "shape q2 = [B, hds, H * W, dqk]" by (simp add: q2_def shape_tensor_scale sq1)
  obtain l0 where l0: "einsum_bhxd_bhyd q2 k1 = Some l0"
    using einsum_bhxd_bhyd_shape[OF sq2 sk1] by blast
  have "H * W \<noteq> height (pos_emb self) * width (pos_emb self)" using hw self by simp
  with sq2 have p: "RelPosEmb_forward (pos_emb self) (pos_rel_height ws) (pos_rel_width ws) q2 = None"
    by (rule RelPosEmb_forward_size_mismatch)
  show ?thesis
    using x qk ch v0 q1 k1 v1 l0 p self(1)
    by (simp add: MHSA_forward_def q2_def[symmetric])
qed

lemma MHSA_forward_returns:
  fixes featuremap :: "'a::field tensor"
  assumes init: "MHSA_init dim (fh, fw) hds dqk dv flag = Some self"
    and wsh: "MHSA_weight_shapes self ws"
    and hds: "1 \<le> hds"
    and x: "shape featuremap = [B, dim, H, W]"
    and hw: "H * W = fh * fw"
    and B: "1 \<le> B"
  shows "\<exists>out. MHSA_forward expf self ws featuremap = Some out
               \<and> shape out = [B, hds * dv, H, W]"
proof -
  note i = MHSA_init_Some[OF init]
  have self: "heads self = hds" "height (pos_emb self) = fh" "width (pos_emb self) = fw"
    and dqk: "1 \<le> dqk" and fh: "1 \<le> fh" and fw: "1 \<le> fw"
    using i by simp_all
  have w_qk: "shape (to_qk_weight ws) = [hds * dqk * 2, dim, 1, 1]"
    and w_v: "shape (to_v_weight ws) = [hds * dv, dim, 1, 1]"
    and t_h: "shape (pos_rel_height ws) = [2 * fh - 1, dqk]"
    and t_w: "shape (pos_rel_width ws) = [2 * fw - 1, dqk]"
    using wsh i by (simp_all add: MHSA_weight_shapes_def mult.commute)
  have H: "1 \<le> H" using hw fh fw by (cases H) simp_all
  obtain qk where qk: "conv2d_1x1 (to_qk_weight ws) featuremap = Some qk"
    and sqk: "shape qk = [B, hds * dqk * 2, H, W]"
    using conv2d_1x1_shape[OF w_qk x] by blast
  obtain q0 k0 where ch: "chunk2_axis1 qk = Some (q0, k0)"
    and sq0: "shape q0 = [B, hds * dqk, H, W]" and sk0: "shape k0 = [B, hds * dqk, H, W]"
    using chunk2_axis1_shape[OF sqk] by blast
  obtain v0 where v0: "conv2d_1x1 (to_v_weight ws) featuremap = Some v0"
    and sv0: "shape v0 = [B, hds * dv, H, W]"
    using conv2d_1x1_shape[OF w_v x] by blast
  obtain q1 where q1: "rearrange_heads hds q0 = Some q1" and sq1: "shape q1 = [B, hds, H * W, dqk]"
    using rearrange_heads_shape[OF sq0 hds] by blast
  obtain k1 where k1: "rearrange_heads hds k0 = Some k1" and sk1: "shape k1 = [B, hds, H * W, dqk]"
    using rearrange_heads_shape[OF sk0 hds] by blast
  obtain v1 where v1: "rearrange_heads hds v0 = Some v1" and sv1: "shape v1 = [B, hds, H * W, dv]"
    using rearrange_heads_shape[OF sv0 hds] by blast
  define q2 where "q2 = tensor_scale (mhsa_scale ws) q1"
  have sq2: "shape q2 = [B, hds, H * W, dqk]" by (simp add: q2_def shape_tensor_scale sq1)
  obtain l0 where l0: "einsum_bhxd_bhyd q2 k1 = Some l0" and sl0: "shape l0 = [B, hds, H * W, H * W]"
    using einsum_bhxd_bhyd_shape[OF sq2 sk1] by blast
  have sq2': "shape q2 = [B, hds, fh * fw, dqk]" using sq2 hw by simp
  obtain p where p: "RelPosEmb_forward (pos_emb self) (pos_rel_height ws) (pos_rel_width ws) q2 = Some p"
    and sp: "shape p = [B, hds, fh * fw, fh * fw]"
    using RelPosEmb_forward_shape[OF sq2' t_h t_w self(2) self(3) B hds fh fw] by blast
  have sp': "shape p = [B, hds, H * W, H * W]" using sp hw by simp
  obtain l1 where l1: "tensor_add l0 p = Some l1" and sl1: "shape l1 = [B, hds, H * W, H * W]"
    using tensor_add_shape[OF sl0 sp'] by blast
  define wts where "wts = softmax_last expf l1"
  have swts: "shape wts = [B, hds, H * W, H * W]" by (simp add: wts_def shape_softmax_last sl1)
  obtain a where a: "einsum_bhxy_bhyd wts v1 = Some a" and sa: "shape a = [B, hds, H * W, dv]"
    using einsum_bhxy_bhyd_shape[OF swts sv1] by blast
  obtain out where out: "rearrange_unheads H a = Some out" and sout: "shape out = [B, hds * dv, H, W]"
    using rearrange_unheads_shape[OF sa H] by blast
  have "MHSA_forward expf self ws featuremap = Some out"
    using x qk ch v0 q1 k1 v1 l0 p l1 a out self(1)
    by (simp add: MHSA_forward_def q2_def[symmetric] wts_def[symmetric])
  then show ?thesis using sout by blast
qed

text \<open>
  C3, amended. Let the layer be built by \<open>MHSA(dim, fmap_size, heads, dim_qk, dim_v)\<close>
  with at least one head and \<open>dim_v\<close> at least 1, its weights having the shapes the
  constructor gives them. For every non-empty input feature map of shape
  \<open>(B, C, H, W)\<close> (all four at least 1): when the channel count \<open>C\<close> is the layer's
  \<open>dim\<close> and \<open>H * W\<close> is the product of the two entries of \<open>fmap_size\<close>,
  \<open>MHSA.forward\<close> returns an output feature map of shape
  \<open>(B, heads * dim_v, H, W)\<close>; for every other such feature map it raises.
\<close>

theorem MHSA_forward_shape:
  fixes featuremap :: "'a::field tensor"
  assumes init: "MHSA_init dim (fh, fw) hds dqk dv flag = Some self"
    and wsh: "MHSA_weight_shapes self ws"
    and hds: "1 \<le> hds" and dv: "1 \<le> dv"
    and x: "shape featuremap = [B, C, H, W]"
    and B: "1 \<le> B" and C: "1 \<le> C" and H: "1 \<le> H" and W: "1 \<le> W"
  shows "if C = dim \<and> H * W = fh * fw
         then \<exists>out. MHSA_forward expf self ws featuremap = Some out
                    \<and> shape out = [B, hds * dv, H, W]
         else MHSA_forward expf self ws featuremap = None"
proof (cases "C = dim")
  case False
  then have "MHSA_forward expf self ws featuremap = None"
    using MHSA_forward_channel_mismatch[OF init wsh x] by blast
  then show ?thesis using False by simp
next
  case True
  then have x': "shape featuremap = [B, dim, H, W]" using x by simp
  show ?thesis
  proof (cases "H * W = fh * fw")
    case hw: True
    have "\<exists>out. MHSA_forward expf self ws featuremap = Some out
                \<and> shape out = [B, hds * dv, H, W]"
      using init wsh hds x' hw B by (rule MHSA_forward_returns)
    then show ?thesis using True hw by simp
  next
    case hw: False
    have "MHSA_forward expf self ws featuremap = None"
      using init wsh hds x' hw by (rule MHSA_forward_size_mismatch)
    then show ?thesis using hw by simp
  qed
qed

theorem MHSA_forward_shape_witness:
  "MHSA_init 2 (2, 2) 1 1 3 False = Some mhsa_example
   \<and> MHSA_weight_shapes mhsa_example (weights_example :: 'a::field MHSA_weights)
   \<and> shape (featuremap_example 2 2 2 :: 'a tensor) = [1, 2, 2, 2] \<and> (1::nat) \<le> 2
   \<and> map_option shape
       (MHSA_forward (\<lambda>v. 1) mhsa_example weights_example (featuremap_example 2 2 2 :: 'a tensor))
     = Some [1, 1 * 3, 2, 2]"
proof -
  have a: "MHSA_init 2 (2, 2) 1 1 3 False = Some mhsa_example"
    by (simp add: MHSA_init_def RelPosEmb_init_def mhsa_example_def)
  have b: "MHSA_weight_shapes mhsa_example (weights_example :: 'a MHSA_weights)"
    by (simp add: MHSA_weight_shapes_def mhsa_example_def weights_example_def)
  have c: "shape (featuremap_example 2 2 2 :: 'a tensor) = [1, 2, 2, 2]"
    by (simp add: featuremap_example_def)
  show ?thesis
    using MHSA_forward_shape[OF a b _ _ c, of "\<lambda>v. 1"] a b c by auto
qed

text \<open>
  As stated, for every feature map, C3 fails: the layer of the example, built for 2
  channels on a 2 by 2 map, raises on the non-empty feature map with 3 channels (in
  \<open>to_qk\<close>), and on the one with 2 channels whose spatial size is 2 by 3 (in the first
  \<open>rearrange\<close> of \<open>RelPosEmb.forward\<close>).
\<close>

theorem MHSA_forward_shape_counterexample:
  "MHSA_init 2 (2, 2) 1 1 3 False = Some mhsa_example
   \<and> MHSA_weight_shapes mhsa_example (weights_example :: 'a::field MHSA_weights)
   \<and> shape (featuremap_example 3 2 2 :: 'a tensor) = [1, 3, 2, 2]
   \<and> MHSA_forward (\<lambda>v. 1) mhsa_example weights_example (featuremap_example 3 2 2 :: 'a tensor)
       = None
   \<and> shape (featuremap_example 2 2 3 :: 'a tensor) = [1, 2, 2, 3]
   \<and> MHSA_forward (\<lambda>v. 1) mhsa_example weights_example (featuremap_example 2 2 3 :: 'a tensor)
       = None"
proof -
  have a: "MHSA_init 2 (2, 2) 1 1 3 False = Some mhsa_example"
    by (simp add: MHSA_init_def RelPosEmb_init_def mhsa_example_def)
  have b: "MHSA_weight_shapes mhsa_example (weights_example :: 'a MHSA_weights)"
    by (simp add: MHSA_weight_shapes_def mhsa_example_def weights_example_def)
  have c: "shape (featuremap_example 3 2 2 :: 'a tensor) = [1, 3, 2, 2]"
    and d: "shape (featuremap_example 2 2 3 :: 'a tensor) = [1, 2, 2, 3]"
    by (simp_all add: featuremap_example_def)
  have e: "MHSA_forward (\<lambda>v. 1) mhsa_example weights_example (featuremap_example 3 2 2 :: 'a tensor)
           = None"
    using a b c by (rule MHSA_forward_channel_mismatch) simp
  have f: "MHSA_forward (\<lambda>v. 1) mhsa_example weights_example (featuremap_example 2 2 3 :: 'a tensor)
           = None"
    using a b _ d by (rule MHSA_forward_size_mismatch) simp_all
  show ?thesis using a b c d e f by simp
qed

end
